theory Spec2Isabelle
  imports Main "HOL-Library.Multiset"
begin

section \<open>JavaScript values read by the merge code\<close>

text \<open>
  A row of the \<open>Webhook Events\<close> table reaches the merger as an object of text
  properties. Airtable leaves an empty cell out of the row, so reading it gives
  \<open>undefined\<close>: a property is a \<open>string option\<close>, with \<open>None\<close> for \<open>undefined\<close>.
  JavaScript's truthiness of such a value: \<open>undefined\<close> and the empty string are falsy.
\<close>

definition truthy :: "string option \<Rightarrow> bool" where
  "truthy v = (case v of None \<Rightarrow> False | Some s \<Rightarrow> s \<noteq> [])"

text \<open>\<open>a || b\<close>: the left operand when it is truthy, the right operand otherwise.\<close>

definition orElse :: "string option \<Rightarrow> string option \<Rightarrow> string option" where
  "orElse a b = (if truthy a then a else b)"

text \<open>\<open>v === 'lit'\<close> against a string literal.\<close>

definition strictEq :: "string option \<Rightarrow> string \<Rightarrow> bool" where
  "strictEq v lit = (v = Some lit)"

text \<open>
  A template literal prints \<open>undefined\<close> for a missing value; the same conversion
  turns a missing \<open>Call ID\<close> into the property key \<open>undefined\<close>.
\<close>

definition toStr :: "string option \<Rightarrow> string" where
  "toStr v = (case v of None \<Rightarrow> ''undefined'' | Some s \<Rightarrow> s)"

text \<open>
  The time columns (\<open>Start Time\<close>, \<open>Call Start Time\<close>, \<open>Received At\<close>) hold ISO-8601
  text. The merge code tests such a text for truthiness, copies it, and hands it to
  \<open>new Date\<close>; it never looks inside. A non-empty time text is therefore kept as what
  \<open>new Date\<close> makes of it: the epoch milliseconds, or an invalid date.
\<close>

datatype timeText = Instant int | Garbled

text \<open>
  \<open>new Date(v)\<close> as a number: \<open>None\<close> is \<open>NaN\<close> (an invalid date), which is also what
  \<open>new Date(undefined)\<close> gives. The time value of a date is a whole number of
  milliseconds of magnitude at most 8.64e15; a text that denotes an instant beyond
  that gives an invalid date.
\<close>

definition newDate :: "timeText option \<Rightarrow> int option" where
  "newDate v =
     (case v of
        Some (Instant t) \<Rightarrow> (if \<bar>t\<bar> \<le> 8640000000000000 then Some t else None)
      | _ \<Rightarrow> None)"

text \<open>\<open>a || b\<close> on time texts: a present time text is a non-empty string, so truthy.\<close>

definition orElseT :: "timeText option \<Rightarrow> timeText option \<Rightarrow> timeText option" where
  "orElseT a b = (case a of Some t \<Rightarrow> Some t | None \<Rightarrow> b)"

text \<open>
  Numbers are IEEE doubles. A time value is below \<open>2^53\<close> and so exact, but the
  difference of two time values can reach 1.728e16, which is beyond \<open>2^53\<close> and below
  \<open>2^54\<close>: there only the even integers are doubles, and an odd result is rounded to
  the neighbour with the even significand, which is the multiple of 4.
\<close>

definition toDouble :: "int \<Rightarrow> int" where
  "toDouble d =
     (if \<bar>d\<bar> \<le> 9007199254740992 \<or> even d then d
      else if 4 dvd d + 1 then d + 1 else d - 1)"

text \<open>Subtraction of two dates; \<open>NaN\<close> when either is invalid.\<close>

definition minusDate :: "int option \<Rightarrow> int option \<Rightarrow> int option" where
  "minusDate a b = (case (a, b) of (Some x, Some y) \<Rightarrow> Some (toDouble (x - y)) | _ \<Rightarrow> None)"

text \<open>
  \<open>Math.round(ms / 1000)\<close> on a whole number of milliseconds: \<open>Math.round\<close> rounds
  half-way cases towards plus infinity, that is \<open>floor (x + 1/2)\<close>; \<open>NaN\<close> stays \<open>NaN\<close>.
  The quotient is a double as well, but below \<open>2^44\<close> it is off by less than 1/1000
  from the exact quotient, whose distance from a half-way case is a multiple of 1/1000,
  and the half-way cases are doubles themselves: rounding the double gives what
  rounding the exact quotient gives.
\<close>

definition roundSeconds :: "int option \<Rightarrow> int option" where
  "roundSeconds d = (case d of None \<Rightarrow> None | Some ms \<Rightarrow> Some ((ms + 500) div 1000))"

text \<open>\<open>Array.prototype.join\<close>.\<close>

fun join :: "string \<Rightarrow> string list \<Rightarrow> string" where
  "join sep [] = []"
| "join sep [x] = x"
| "join sep (x # y # ys) = x @ sep @ join sep (y # ys)"

text \<open>
  The separator \<open>' \<rightarrow> '\<close> of the IVR path: a space, U+2192 (three bytes in UTF-8), a
  space.
\<close>

definition arrow :: string where
  "arrow = [CHR 0x20, CHR 0xE2, CHR 0x86, CHR 0x92, CHR 0x20]"

text \<open>Decimal text of a natural number, for the duration in the summary.\<close>

definition digit :: "nat \<Rightarrow> char" where
  "digit d = ''0123456789'' ! d"

fun digits :: "nat \<Rightarrow> nat \<Rightarrow> string" where
  "digits 0 n = []"
| "digits (Suc fuel) n =
     (if n < 10 then [digit n]
      else digits fuel (n div 10) @ [digit (n mod 10)])"

definition showNat :: "nat \<Rightarrow> string" where
  "showNat n = digits (Suc n) n"

datatype error =
  TypeError
| RequestFailed

section \<open>Webhook events\<close>

text \<open>
  One row of \<open>Webhook Events\<close> as the services return it: \<open>{ id: record.id,
  ...record.fields }\<close>. The fields are named after the Airtable columns the merger
  reads. \<open>Processed\<close> and \<open>MergedCallRecord\<close> are what \<open>markMultipleAsProcessed\<close> writes.
\<close>

record event =
  recId :: string
  CallID :: "string option"
  Status :: "string option"
  Direction :: "string option"
  SendType :: "string option"
  SendName :: "string option"
  SendNumber :: "string option"
  DestinationType :: "string option"
  DestinationName :: "string option"
  DestinationNumber :: "string option"
  CalledNumber :: "string option"
  CallerIDExternal :: "string option"
  CallerNameExternal :: "string option"
  StartTime :: "timeText option"
  CallStartTime :: "timeText option"
  ReceivedAt :: "timeText option"
  Processed :: bool
  MergedCallRecord :: "string list"

section \<open>extractCallData (src/services/webhookMerger.js)\<close>

text \<open>
  \<open>huntGroup\<close> and \<open>endTime\<close> can be \<open>null\<close> as well as \<open>undefined\<close>, and \<open>updateCall\<close>
  tells the two apart (\<open>!== undefined\<close>), so they get a three-valued type.
  \<open>rawWebhookData\<close> is \<open>JSON.stringify(events, null, 2)\<close>, a text that determines the
  events; the record keeps the events themselves.
\<close>

datatype 'a nullable = Undefined | Null | Val 'a

definition ofOption :: "'a option \<Rightarrow> 'a nullable" where
  "ofOption v = (case v of None \<Rightarrow> Undefined | Some x \<Rightarrow> Val x)"

definition truthyN :: "string nullable \<Rightarrow> bool" where
  "truthyN v = (case v of Val s \<Rightarrow> s \<noteq> [] | _ \<Rightarrow> False)"

record callData =
  telebroadCallId :: "string option"
  direction :: string
  dateTime :: "timeText option"
  callerNumber :: "string option"
  callerName :: string
  calledNumber :: "string option"
  ivrPath :: string
  huntGroup :: "string nullable"
  finalStatus :: string
  callStartTime :: "timeText option"
  endTime :: "timeText nullable"
  duration :: "int option"
  webhookEvents :: nat
  rawWebhookData :: "event list"
  pickedUpByName :: "string option"
  pickedUpByExtension :: "string option"
  answerTime :: "timeText option"
  summary :: string

text \<open>The predicates of the three \<open>events.find\<close> calls.\<close>

definition isAnswered :: "event \<Rightarrow> bool" where
  "isAnswered e = (strictEq (Status e) ''answered'' \<and> strictEq (DestinationType e) ''phone'')"

definition isEndedExternal :: "event \<Rightarrow> bool" where
  "isEndedExternal e = (strictEq (Status e) ''ended'' \<and> strictEq (SendType e) ''external'')"

definition isHuntGroup :: "event \<Rightarrow> bool" where
  "isHuntGroup e =
     (strictEq (DestinationType e) ''huntgroup'' \<or> strictEq (SendType e) ''huntgroup'')"

text \<open>
  The body of the \<open>forEach\<close> that builds the IVR path: a destination of type \<open>ivr\<close>
  with a truthy name is pushed unless the path already includes the name.
\<close>

definition ivrStep :: "event \<Rightarrow> string list \<Rightarrow> string list" where
  "ivrStep e path =
     (case DestinationName e of
        Some name \<Rightarrow>
          (if strictEq (DestinationType e) ''ivr'' \<and> name \<noteq> [] then
             (if name \<in> set path then path else path @ [name])
           else path)
      | None \<Rightarrow> path)"

definition buildIvrPath :: "event list \<Rightarrow> string list" where
  "buildIvrPath events = fold ivrStep events []"

text \<open>
  For stating what the path is: the IVR destination an event names, if any, and the
  IVR destinations of a group in order.
\<close>

definition ivrName :: "event \<Rightarrow> string option" where
  "ivrName e =
     (if strictEq (DestinationType e) ''ivr'' \<and> truthy (DestinationName e)
      then DestinationName e else None)"

definition ivrNames :: "event list \<Rightarrow> string list" where
  "ivrNames events = List.map_filter ivrName events"

definition huntGroupOf :: "event list \<Rightarrow> string nullable" where
  "huntGroupOf events =
     (case find isHuntGroup events of
        Some e \<Rightarrow> ofOption (orElse (DestinationName e) (SendName e))
      | None \<Rightarrow> Null)"

text \<open>The decision chain for \<open>finalStatus\<close> and \<open>callDirection\<close>.\<close>

definition decideStatus :: "bool \<Rightarrow> string nullable \<Rightarrow> string list \<Rightarrow> string \<Rightarrow> string \<times> string" where
  "decideStatus wasAnswered hg path dir =
     (if wasAnswered then (''Answered'', dir)
      else if truthyN hg then (''Missed'', ''Missed'')
      else if length path > 0 then (''IVR Only'', ''Missed'')
      else (''Abandoned'', ''Missed''))"

text \<open>
  \<open>duration\<close>: 0 unless both an answered event and an ended event from external were
  found; then the rounded difference of their \<open>Start Time\<close>s, with no lower bound.
\<close>

definition durationOf :: "event option \<Rightarrow> event option \<Rightarrow> int option" where
  "durationOf answeredEvent endedEvent =
     (case (answeredEvent, endedEvent) of
        (Some a, Some e) \<Rightarrow>
          roundSeconds (minusDate (newDate (StartTime e)) (newDate (StartTime a)))
      | _ \<Rightarrow> Some 0)"

definition summaryOf ::
  "string \<Rightarrow> string option \<Rightarrow> string list \<Rightarrow> string nullable \<Rightarrow> event option \<Rightarrow>
   int option \<Rightarrow> string \<Rightarrow> string"
where
  "summaryOf name number path hg answeredEvent dur status =
     join '' | ''
       ((if name \<noteq> [] then [''From: '' @ name @ '' ('' @ toStr number @ '')'']
         else [''From: '' @ toStr number])
        @ (if length path > 0 then [''IVR: '' @ join arrow path] else [])
        @ (case hg of
             Val g \<Rightarrow> (if g \<noteq> [] then [''Hunt Group: '' @ g] else [])
           | _ \<Rightarrow> [])
        @ (case answeredEvent of
             Some a \<Rightarrow>
               [''Answered by: '' @ toStr (DestinationName a)]
               @ (case dur of
                    Some d \<Rightarrow>
                      (if d > 0 then
                         [''Duration: '' @ showNat (nat (d div 60)) @ ''m ''
                            @ showNat (nat (d mod 60)) @ ''s'']
                       else [])
                  | None \<Rightarrow> [])
           | None \<Rightarrow> [''Status: '' @ status]))"

text \<open>
  \<open>extractCallData(events)\<close>. With no events \<open>firstEvent\<close> is \<open>undefined\<close> and reading
  \<open>firstEvent['Direction']\<close> throws a \<open>TypeError\<close>.
\<close>

definition extractCallData :: "event list \<Rightarrow> error + callData" where
  "extractCallData events =
     (case events of
        [] \<Rightarrow> Inl TypeError
      | firstEvent # _ \<Rightarrow>
          (let answeredEvent = find isAnswered events;
               endedEvent = find isEndedExternal events;
               path = buildIvrPath events;
               hg = huntGroupOf events;
               wasAnswered = (answeredEvent \<noteq> None);
               dir = (if strictEq (Direction firstEvent) ''incoming'' then ''Inbound''
                      else ''Outbound'');
               (status, callDirection) = decideStatus wasAnswered hg path dir;
               dur = durationOf answeredEvent endedEvent;
               number = orElse (CallerIDExternal firstEvent) (SendNumber firstEvent);
               name = (if truthy (CallerNameExternal firstEvent)
                       then toStr (CallerNameExternal firstEvent) else [])
           in Inr \<lparr>
                telebroadCallId = CallID firstEvent,
                direction = callDirection,
                dateTime = orElseT (CallStartTime firstEvent) (StartTime firstEvent),
                callerNumber = number,
                callerName = name,
                calledNumber = CalledNumber firstEvent,
                ivrPath = join arrow path,
                huntGroup = hg,
                finalStatus = status,
                callStartTime = CallStartTime firstEvent,
                endTime = (case endedEvent of
                             Some e \<Rightarrow> ofOption (StartTime e)
                           | None \<Rightarrow> Null),
                duration = dur,
                webhookEvents = length events,
                rawWebhookData = events,
                pickedUpByName = (case answeredEvent of
                                    Some a \<Rightarrow> DestinationName a | None \<Rightarrow> None),
                pickedUpByExtension = (case answeredEvent of
                                         Some a \<Rightarrow> DestinationNumber a | None \<Rightarrow> None),
                answerTime = (case answeredEvent of
                                Some a \<Rightarrow> StartTime a | None \<Rightarrow> None),
                summary = summaryOf name number path hg answeredEvent dur status
              \<rparr>))"

section \<open>Ordering the events of one call\<close>

text \<open>
  \<open>mergeCallEvents\<close> sorts with the comparator
  \<open>new Date(a['Start Time'] || a['Received At']) - new Date(b['Start Time'] || b['Received At'])\<close>.
  The Airtable automation script (airtable-scripts/merge-webhook-to-calls.js) sorts with
  \<open>Call Start Time\<close> in the place of \<open>Received At\<close>; there an empty cell reads as
  \<open>null\<close>, and \<open>new Date(null)\<close> is the epoch.
\<close>

definition sortKey :: "event \<Rightarrow> int option" where
  "sortKey e = newDate (orElseT (StartTime e) (ReceivedAt e))"

definition scriptSortKey :: "event \<Rightarrow> int option" where
  "scriptSortKey e =
     (case orElseT (StartTime e) (CallStartTime e) of
        None \<Rightarrow> Some 0
      | Some t \<Rightarrow> newDate (Some t))"

text \<open>
  \<open>Array.prototype.sort\<close> is stable, and a comparator result of \<open>NaN\<close> counts as 0. When
  every comparison is a number the language fixes the result: the stable ascending
  order. Where a comparison is \<open>NaN\<close> the language leaves the order to the engine; the
  model then still inserts from the right, an element moving past those it is strictly
  greater than.
\<close>

definition comesAfter :: "('a \<Rightarrow> int option) \<Rightarrow> 'a \<Rightarrow> 'a \<Rightarrow> bool" where
  "comesAfter key a b = (case minusDate (key a) (key b) of Some d \<Rightarrow> d > 0 | None \<Rightarrow> False)"

fun insertBy :: "('a \<Rightarrow> int option) \<Rightarrow> 'a \<Rightarrow> 'a list \<Rightarrow> 'a list" where
  "insertBy key x [] = [x]"
| "insertBy key x (y # ys) =
     (if comesAfter key x y then y # insertBy key x ys else x # y # ys)"

definition sortBy :: "('a \<Rightarrow> int option) \<Rightarrow> 'a list \<Rightarrow> 'a list" where
  "sortBy key xs = foldr (insertBy key) xs []"

section \<open>The Webhook Events table (src/services/webhookEvents.js)\<close>

text \<open>
  The store is Airtable. A request either succeeds or throws; which requests throw is
  given by a predicate on requests, so that any pattern of store failures can be chosen.
\<close>

datatype request =
  SelectUnprocessed
| SelectCalls string
| CreateCall
| UpdateCall string
| UpdateEvents "string list"
| SelectEventsOfCall string

type_synonym faults = "request \<Rightarrow> bool"

text \<open>
  \<open>getUnprocessedEvents\<close>: the first page (100 rows) of the rows with \<open>Processed\<close>
  unchecked, sorted by \<open>Received At\<close> ascending. \<open>createEvent\<close> gives every row a
  \<open>Received At\<close>; a row without one is left where it stands among the others.
\<close>

definition receivedMillis :: "event \<Rightarrow> int option" where
  "receivedMillis e = newDate (ReceivedAt e)"

definition getUnprocessedEvents :: "faults \<Rightarrow> event list \<Rightarrow> error + event list" where
  "getUnprocessedEvents f table =
     (if f SelectUnprocessed then Inl RequestFailed
      else Inr (take 100 (sortBy receivedMillis (filter (\<lambda>e. \<not> Processed e) table))))"

text \<open>
  \<open>grouped\<close> starts as \<open>{}\<close>, an object that inherits from \<open>Object.prototype\<close>: for a
  key such as \<open>constructor\<close> the test \<open>!grouped[callId]\<close> sees the inherited member, no
  array is stored, and \<open>grouped[callId].push\<close> throws a \<open>TypeError\<close>.
\<close>

definition inheritedKeys :: "string list" where
  "inheritedKeys =
     [''constructor'', ''__defineGetter__'', ''__defineSetter__'', ''hasOwnProperty'',
      ''__lookupGetter__'', ''__lookupSetter__'', ''isPrototypeOf'', ''propertyIsEnumerable'',
      ''toString'', ''valueOf'', ''__proto__'', ''toLocaleString'']"

text \<open>
  The object's own properties in insertion order, as an association list. The key of
  an event is its \<open>Call ID\<close> converted to a property key.
\<close>

fun pushTo :: "string \<Rightarrow> event \<Rightarrow> (string \<times> event list) list \<Rightarrow> (string \<times> event list) list" where
  "pushTo k e [] = [(k, [e])]"
| "pushTo k e ((k', es) # rest) =
     (if k' = k then (k', es @ [e]) # rest else (k', es) # pushTo k e rest)"

fun groupEvents ::
  "event list \<Rightarrow> (string \<times> event list) list \<Rightarrow> error + (string \<times> event list) list" where
  "groupEvents [] grouped = Inr grouped"
| "groupEvents (e # es) grouped =
     (let k = toStr (CallID e) in
      if k \<in> set inheritedKeys then Inl TypeError
      else groupEvents es (pushTo k e grouped))"

definition getEventsGroupedByCallId ::
  "faults \<Rightarrow> event list \<Rightarrow> error + (string \<times> event list) list" where
  "getEventsGroupedByCallId f table =
     (case getUnprocessedEvents f table of
        Inl err \<Rightarrow> Inl err
      | Inr events \<Rightarrow> groupEvents events [])"

text \<open>
  \<open>Object.keys\<close>: the keys that are array indices (canonical decimal text of a number
  below \<open>2^32 - 1\<close>) come first, in ascending numeric order, then the other keys in
  insertion order.
\<close>

definition isDigit :: "char \<Rightarrow> bool" where
  "isDigit c = ((48::nat) \<le> of_char c \<and> of_char c \<le> (57::nat))"

definition decimalValue :: "string \<Rightarrow> int" where
  "decimalValue s = foldl (\<lambda>acc c. 10 * acc + (of_char c - 48)) 0 s"

definition isArrayIndex :: "string \<Rightarrow> bool" where
  "isArrayIndex s =
     (s \<noteq> [] \<and> list_all isDigit s \<and> (s = ''0'' \<or> hd s \<noteq> CHR ''0'')
      \<and> decimalValue s < 4294967295)"

definition objectKeys :: "(string \<times> 'v) list \<Rightarrow> string list" where
  "objectKeys obj =
     sort_key decimalValue (filter isArrayIndex (map fst obj))
     @ filter (\<lambda>k. \<not> isArrayIndex k) (map fst obj)"

definition getProp :: "(string \<times> 'v list) list \<Rightarrow> string \<Rightarrow> 'v list" where
  "getProp obj k = (case map_of obj k of Some v \<Rightarrow> v | None \<Rightarrow> [])"

text \<open>
  \<open>markMultipleAsProcessed\<close>: one update request per batch of ten ids. A batch that
  succeeds checks \<open>Processed\<close> and links the call record on its rows; a batch that throws
  ends the function, the earlier batches staying written.
\<close>

definition markRow :: "string list \<Rightarrow> string \<Rightarrow> event \<Rightarrow> event" where
  "markRow ids callRecordId e =
     (if recId e \<in> set ids then e\<lparr>Processed := True, MergedCallRecord := [callRecordId]\<rparr>
      else e)"

fun markBatches ::
  "nat \<Rightarrow> faults \<Rightarrow> event list \<Rightarrow> string list \<Rightarrow> string \<Rightarrow> event list \<times> (error + unit)" where
  "markBatches 0 f table ids callRecordId = (table, Inr ())"
| "markBatches (Suc fuel) f table ids callRecordId =
     (if ids = [] then (table, Inr ())
      else if f (UpdateEvents (take 10 ids)) then (table, Inl RequestFailed)
      else markBatches fuel f (map (markRow (take 10 ids) callRecordId) table)
             (drop 10 ids) callRecordId)"

definition markMultipleAsProcessed ::
  "faults \<Rightarrow> event list \<Rightarrow> string list \<Rightarrow> string \<Rightarrow> event list \<times> (error + unit)" where
  "markMultipleAsProcessed f table ids callRecordId =
     markBatches (length ids) f table ids callRecordId"

section \<open>The Calls table (src/services/calls.js)\<close>

text \<open>
  A row of \<open>Calls\<close>, with the columns that \<open>createCall\<close> and \<open>updateCall\<close> can write from
  the merger's call data; each is named after its key in \<open>fields.calls\<close>
  (src/config/airtable.js). An empty cell is \<open>None\<close>; Airtable keeps no empty text.
\<close>

record callRow =
  rowId :: string
  F_DATE_TIME :: "timeText option"
  F_DIRECTION :: "string option"
  F_DURATION :: "int option"
  F_SUMMARY :: "string option"
  F_TB_CALL_ID :: "string option"
  F_TELEBROAD_CALL_ID :: "string option"
  F_CALLER_NUMBER :: "string option"
  F_CALLED_NUMBER :: "string option"
  F_IVR_PATH :: "string option"
  F_HUNT_GROUP :: "string option"
  F_PICKED_UP_BY_NAME :: "string option"
  F_PICKED_UP_BY_EXTENSION :: "string option"
  F_FINAL_STATUS :: "string option"
  F_CALL_START_TIME :: "timeText option"
  F_ANSWER_TIME :: "timeText option"
  F_END_TIME :: "timeText option"
  F_CALLER_NAME :: "string option"
  F_WEBHOOK_EVENTS :: "nat option"
  F_RAW_WEBHOOK_DATA :: "event list option"

text \<open>
  The two tables, the counter from which Airtable names a new record, the clock read by
  \<open>new Date()\<close>, and the call ids reported by \<open>console.error\<close> in the merge loop.
\<close>

record world =
  callsTable :: "callRow list"
  eventsTable :: "event list"
  nextRecord :: nat
  now :: timeText
  errorLog :: "string list"

definition textCell :: "string \<Rightarrow> string option" where
  "textCell s = (if s = [] then None else Some s)"

definition optCell :: "string option \<Rightarrow> string option" where
  "optCell v = (case v of None \<Rightarrow> None | Some s \<Rightarrow> textCell s)"

definition nullableCell :: "'a nullable \<Rightarrow> 'a option" where
  "nullableCell v = (case v of Val x \<Rightarrow> Some x | _ \<Rightarrow> None)"

text \<open>
  \<open>createCall(callData)\<close>: \<open>Date/Time\<close> and \<open>Direction\<close> always, \<open>Duration\<close> and
  \<open>Webhook Events\<close> when not \<open>undefined\<close>, every other column when its value is truthy.
  The call id goes to \<open>TB Call ID\<close>. A \<open>NaN\<close> duration serialises to \<open>null\<close>, an empty
  cell.
\<close>

definition newRowId :: "world \<Rightarrow> string" where
  "newRowId w = ''rec'' @ showNat (nextRecord w)"

definition fieldsToCreate :: "world \<Rightarrow> callData \<Rightarrow> callRow" where
  "fieldsToCreate w cd = \<lparr>
     rowId = newRowId w,
     F_DATE_TIME = Some (case dateTime cd of Some t \<Rightarrow> t | None \<Rightarrow> now w),
     F_DIRECTION = Some (if direction cd \<noteq> [] then direction cd else ''Inbound''),
     F_DURATION = duration cd,
     F_SUMMARY = textCell (summary cd),
     F_TB_CALL_ID = optCell (telebroadCallId cd),
     F_TELEBROAD_CALL_ID = None,
     F_CALLER_NUMBER = optCell (callerNumber cd),
     F_CALLED_NUMBER = optCell (calledNumber cd),
     F_IVR_PATH = textCell (ivrPath cd),
     F_HUNT_GROUP = optCell (nullableCell (huntGroup cd)),
     F_PICKED_UP_BY_NAME = optCell (pickedUpByName cd),
     F_PICKED_UP_BY_EXTENSION = optCell (pickedUpByExtension cd),
     F_FINAL_STATUS = textCell (finalStatus cd),
     F_CALL_START_TIME = callStartTime cd,
     F_ANSWER_TIME = answerTime cd,
     F_END_TIME = nullableCell (endTime cd),
     F_CALLER_NAME = textCell (callerName cd),
     F_WEBHOOK_EVENTS = Some (webhookEvents cd),
     F_RAW_WEBHOOK_DATA = Some (rawWebhookData cd)
   \<rparr>"

definition createCall :: "faults \<Rightarrow> world \<Rightarrow> callData \<Rightarrow> error + world \<times> callRow" where
  "createCall f w cd =
     (if f CreateCall then Inl RequestFailed
      else Inr (w\<lparr>callsTable := callsTable w @ [fieldsToCreate w cd],
                   nextRecord := Suc (nextRecord w)\<rparr>,
                fieldsToCreate w cd))"

text \<open>
  \<open>updateCall(recordId, updateData)\<close>: a column is written when the value is not
  \<open>undefined\<close>; \<open>null\<close> and the empty text clear it. The call id goes to
  \<open>Telebroad Call ID\<close>; \<open>TB Call ID\<close>, the column the lookup reads, is never written.
\<close>

definition patchOpt :: "string option \<Rightarrow> string option \<Rightarrow> string option" where
  "patchOpt v old = (case v of None \<Rightarrow> old | Some s \<Rightarrow> textCell s)"

definition patchTime :: "timeText option \<Rightarrow> timeText option \<Rightarrow> timeText option" where
  "patchTime v old = (case v of None \<Rightarrow> old | Some t \<Rightarrow> Some t)"

definition fieldsToUpdate :: "callData \<Rightarrow> callRow \<Rightarrow> callRow" where
  "fieldsToUpdate cd r = r\<lparr>
     F_DATE_TIME := patchTime (dateTime cd) (F_DATE_TIME r),
     F_DIRECTION := textCell (direction cd),
     F_DURATION := duration cd,
     F_SUMMARY := textCell (summary cd),
     F_TELEBROAD_CALL_ID := patchOpt (telebroadCallId cd) (F_TELEBROAD_CALL_ID r),
     F_CALLER_NUMBER := patchOpt (callerNumber cd) (F_CALLER_NUMBER r),
     F_CALLED_NUMBER := patchOpt (calledNumber cd) (F_CALLED_NUMBER r),
     F_IVR_PATH := textCell (ivrPath cd),
     F_HUNT_GROUP := (case huntGroup cd of
                        Undefined \<Rightarrow> F_HUNT_GROUP r
                      | Null \<Rightarrow> None
                      | Val g \<Rightarrow> textCell g),
     F_PICKED_UP_BY_NAME := patchOpt (pickedUpByName cd) (F_PICKED_UP_BY_NAME r),
     F_PICKED_UP_BY_EXTENSION :=
       patchOpt (pickedUpByExtension cd) (F_PICKED_UP_BY_EXTENSION r),
     F_FINAL_STATUS := textCell (finalStatus cd),
     F_CALL_START_TIME := patchTime (callStartTime cd) (F_CALL_START_TIME r),
     F_ANSWER_TIME := patchTime (answerTime cd) (F_ANSWER_TIME r),
     F_END_TIME := (case endTime cd of
                      Undefined \<Rightarrow> F_END_TIME r
                    | Null \<Rightarrow> None
                    | Val t \<Rightarrow> Some t),
     F_CALLER_NAME := textCell (callerName cd),
     F_WEBHOOK_EVENTS := Some (webhookEvents cd),
     F_RAW_WEBHOOK_DATA := Some (rawWebhookData cd)
   \<rparr>"

definition updateRows :: "string \<Rightarrow> callData \<Rightarrow> callRow list \<Rightarrow> callRow list" where
  "updateRows recordId cd rows =
     map (\<lambda>r. if rowId r = recordId then fieldsToUpdate cd r else r) rows"

definition updateCall :: "faults \<Rightarrow> world \<Rightarrow> string \<Rightarrow> callData \<Rightarrow> error + world" where
  "updateCall f w recordId cd =
     (if f (UpdateCall recordId) \<or> recordId \<notin> set (map rowId (callsTable w))
      then Inl RequestFailed
      else Inr (w\<lparr>callsTable := updateRows recordId cd (callsTable w)\<rparr>))"



definition cellText :: "string option \<Rightarrow> string" where
  "cellText v = (case v of None \<Rightarrow> [] | Some s \<Rightarrow> s)"

definition matchesCallId :: "string \<Rightarrow> callRow \<Rightarrow> bool" where
  "matchesCallId c r = (cellText (F_TB_CALL_ID r) = c)"

definition latestFirst :: "callRow \<Rightarrow> int option" where
  "latestFirst r = map_option uminus (newDate (F_DATE_TIME r))"

definition findByTelebroadId :: "faults \<Rightarrow> world \<Rightarrow> string \<Rightarrow> error + callRow option" where
  "findByTelebroadId f w c =
     (if f (SelectCalls c) then Inl RequestFailed
      else Inr (case take 100 (sortBy latestFirst (filter (matchesCallId c) (callsTable w))) of
                  [] \<Rightarrow> None
                | r # _ \<Rightarrow> Some r))"

definition findByTelebroadCallId :: "faults \<Rightarrow> world \<Rightarrow> string \<Rightarrow> error + callRow option" where
  "findByTelebroadCallId f w c = findByTelebroadId f w c"

section \<open>mergeCallEvents, processUnprocessedEvents, processSingleCall\<close>

datatype action = Created | Updated

text \<open>
  The result of \<open>mergeCallEvents\<close>. The sort is in place, so the caller's array is
  sorted afterwards; \<open>sortedEvents\<close> is that array.
\<close>

record mergeResult =
  mergeAction :: action
  callRecordId :: string
  mergedData :: callData
  sortedEvents :: "event list"

definition mergeCallEvents ::
  "faults \<Rightarrow> world \<Rightarrow> string \<Rightarrow> event list \<Rightarrow> error + world \<times> mergeResult" where
  "mergeCallEvents f w callId events =
     (let sorted = sortBy sortKey events in
      case extractCallData sorted of
        Inl err \<Rightarrow> Inl err
      | Inr cd \<Rightarrow>
          (case findByTelebroadCallId f w callId of
             Inl err \<Rightarrow> Inl err
           | Inr (Some existingCall) \<Rightarrow>
               (case updateCall f w (rowId existingCall) cd of
                  Inl err \<Rightarrow> Inl err
                | Inr w' \<Rightarrow>
                    Inr (w', \<lparr>mergeAction = Updated, callRecordId = rowId existingCall,
                              mergedData = cd, sortedEvents = sorted\<rparr>))
           | Inr None \<Rightarrow>
               (case createCall f w cd of
                  Inl err \<Rightarrow> Inl err
                | Inr (w', callRecord) \<Rightarrow>
                    Inr (w', \<lparr>mergeAction = Created, callRecordId = rowId callRecord,
                              mergedData = cd, sortedEvents = sorted\<rparr>))))"

text \<open>
  The summary returned by \<open>processUnprocessedEvents\<close>:
  \<open>{ processed: callIds.length, created, updated }\<close>.
\<close>

record mergeSummary =
  processed :: nat
  created :: nat
  updated :: nat

text \<open>
  One turn of the loop over the call ids: merge, count, mark the group's events. The
  \<open>catch\<close> around the turn reports the call id and goes on to the next one; the counter
  of the action has already been raised when it is the marking that throws.
\<close>

definition logError :: "string \<Rightarrow> world \<Rightarrow> world" where
  "logError callId w = w\<lparr>errorLog := errorLog w @ [callId]\<rparr>"

definition bump :: "action \<Rightarrow> nat \<times> nat \<Rightarrow> nat \<times> nat" where
  "bump a cu = (case a of Created \<Rightarrow> (Suc (fst cu), snd cu) | Updated \<Rightarrow> (fst cu, Suc (snd cu)))"

definition processCall ::
  "faults \<Rightarrow> string \<times> event list \<Rightarrow> world \<times> nat \<times> nat \<Rightarrow> world \<times> nat \<times> nat" where
  "processCall f g st =
     (case mergeCallEvents f (fst st) (fst g) (snd g) of
        Inl err \<Rightarrow> (logError (fst g) (fst st), snd st)
      | Inr (w1, result) \<Rightarrow>
          (case markMultipleAsProcessed f (eventsTable w1)
                  (map recId (sortedEvents result)) (callRecordId result) of
             (table, Inl err) \<Rightarrow>
               (logError (fst g) (w1\<lparr>eventsTable := table\<rparr>), bump (mergeAction result) (snd st))
           | (table, Inr u) \<Rightarrow>
               (w1\<lparr>eventsTable := table\<rparr>, bump (mergeAction result) (snd st))))"

definition processCalls ::
  "faults \<Rightarrow> (string \<times> event list) list \<Rightarrow> world \<times> nat \<times> nat \<Rightarrow> world \<times> nat \<times> nat" where
  "processCalls f groups st = fold (processCall f) groups st"

text \<open>
  For stating the counts: the sum of the two counters of a loop state, and the number
  of errors reported so far.
\<close>

definition tally :: "world \<times> nat \<times> nat \<Rightarrow> nat" where
  "tally st = fst (snd st) + snd (snd st)"

definition logged :: "world \<times> nat \<times> nat \<Rightarrow> nat" where
  "logged st = length (errorLog (fst st))"

definition processUnprocessedEvents :: "faults \<Rightarrow> world \<Rightarrow> world \<times> (error + mergeSummary)" where
  "processUnprocessedEvents f w =
     (case getEventsGroupedByCallId f (eventsTable w) of
        Inl err \<Rightarrow> (w, Inl err)
      | Inr groupedEvents \<Rightarrow>
          (let callIds = objectKeys groupedEvents in
           if length callIds = 0 then (w, Inr \<lparr>processed = 0, created = 0, updated = 0\<rparr>)
           else
             (let st = processCalls f (map (\<lambda>c. (c, getProp groupedEvents c)) callIds) (w, 0, 0)
              in (fst st, Inr \<lparr>processed = length callIds, created = fst (snd st),
                               updated = snd (snd st)\<rparr>))))"

text \<open>
  \<open>processSingleCall(callId)\<close>: all rows of the call, processed or not; with no rows it
  returns \<open>null\<close> before anything is merged. Nothing catches here.
\<close>

definition getEventsByCallId :: "faults \<Rightarrow> event list \<Rightarrow> string \<Rightarrow> error + event list" where
  "getEventsByCallId f table c =
     (if f (SelectEventsOfCall c) then Inl RequestFailed
      else Inr (take 100 (sortBy receivedMillis (filter (\<lambda>e. cellText (CallID e) = c) table))))"

definition processSingleCall ::
  "faults \<Rightarrow> world \<Rightarrow> string \<Rightarrow> world \<times> (error + mergeResult option)" where
  "processSingleCall f w callId =
     (case getEventsByCallId f (eventsTable w) callId of
        Inl err \<Rightarrow> (w, Inl err)
      | Inr events \<Rightarrow>
          (if length events = 0 then (w, Inr None)
           else
             (case mergeCallEvents f w callId events of
                Inl err \<Rightarrow> (w, Inl err)
              | Inr (w1, result) \<Rightarrow>
                  (case markMultipleAsProcessed f (eventsTable w1)
                          (map recId (sortedEvents result)) (callRecordId result) of
                     (table, Inl err) \<Rightarrow> (w1\<lparr>eventsTable := table\<rparr>, Inl err)
                   | (table, Inr u) \<Rightarrow> (w1\<lparr>eventsTable := table\<rparr>, Inr (Some result))))))"


section \<open>Example events\<close>

text \<open>
  The call of the repository's merge guide: call id \<open>1765829443.779816\<close>, received at
  2025-12-15T15:10:43-05:00, which is 1765829443000 ms after the epoch. \<open>leg\<close> builds one
  event of that call from its row id, status, source type, destination type and name,
  and the seconds after the call's start at which the leg started.
\<close>

definition blankEvent :: event where
  "blankEvent = \<lparr>
     recId = [], CallID = None, Status = None, Direction = None, SendType = None,
     SendName = None, SendNumber = None, DestinationType = None, DestinationName = None,
     DestinationNumber = None, CalledNumber = None, CallerIDExternal = None,
     CallerNameExternal = None, StartTime = None, CallStartTime = None, ReceivedAt = None,
     Processed = False, MergedCallRecord = []\<rparr>"

definition callStart :: int where
  "callStart = 1765829443000"

definition leg :: "string \<Rightarrow> string \<Rightarrow> string \<Rightarrow> string \<Rightarrow> string \<Rightarrow> int \<Rightarrow> event" where
  "leg i st sendT destT destN secs = blankEvent\<lparr>
     recId := i,
     CallID := Some ''1765829443.779816'',
     Status := Some st,
     Direction := Some ''incoming'',
     SendType := Some sendT,
     SendNumber := Some ''18455021115'',
     DestinationType := Some destT,
     DestinationName := textCell destN,
     CalledNumber := Some ''17186732999'',
     CallerIDExternal := Some ''18455021115'',
     StartTime := Some (Instant (callStart + 1000 * secs)),
     CallStartTime := Some (Instant callStart),
     ReceivedAt := Some (Instant (callStart + 1000 * secs))\<rparr>"

text \<open>IVR destinations A, A, B, A in time order.\<close>

definition ivrRevisit :: "event list" where
  "ivrRevisit =
     [leg ''recE1'' ''ringing'' ''external'' ''ivr'' ''A'' 0,
      leg ''recE2'' ''ringing'' ''ivr'' ''ivr'' ''A'' 5,
      leg ''recE3'' ''ringing'' ''ivr'' ''ivr'' ''B'' 9,
      leg ''recE4'' ''ringing'' ''ivr'' ''ivr'' ''A'' 14]"

text \<open>An IVR leg without a destination name between two named ones.\<close>

definition ivrWithBlank :: "event list" where
  "ivrWithBlank =
     [leg ''recE1'' ''ringing'' ''external'' ''ivr'' ''Day'' 0,
      leg ''recE2'' ''ringing'' ''ivr'' ''ivr'' [] 5,
      leg ''recE3'' ''ringing'' ''ivr'' ''ivr'' ''discuss something'' 9]"

text \<open>A call that reaches a hunt group whose legs carry no name, and is never answered.\<close>

definition unnamedHuntGroup :: "event list" where
  "unnamedHuntGroup =
     [leg ''recE1'' ''ringing'' ''external'' ''ivr'' ''Day'' 0,
      leg ''recE2'' ''ringing'' ''ivr'' ''huntgroup'' [] 6]"

text \<open>A hunt-group leg followed by a leg answered by a phone.\<close>

definition huntThenAnswered :: "event list" where
  "huntThenAnswered =
     [leg ''recE1'' ''ringing'' ''ivr'' ''huntgroup'' ''talk to Madrech'' 30,
      leg ''recE2'' ''answered'' ''huntgroup'' ''phone'' ''Chaim David Klein'' 38]"

text \<open>
  Four events of the call in the merge guide, with its answer and end times: answered
  at 15:11:21, and the ended event of the external leg carrying 15:10:43.
\<close>

definition guideRinging :: event where
  "guideRinging = leg ''recE1'' ''ringing'' ''external'' ''ivr'' ''Day'' 0"

definition guideEnded :: event where
  "guideEnded = leg ''recE7'' ''ended'' ''external'' ''ivr'' ''Day'' 0"

definition guideHunt :: event where
  "guideHunt = leg ''recE4'' ''ringing'' ''ivr'' ''huntgroup'' ''talk to Madrech'' 30"

definition guideAnswered :: event where
  "guideAnswered = leg ''recE6'' ''answered'' ''huntgroup'' ''phone'' ''Chaim David Klein'' 38"

definition guideCallId :: string where
  "guideCallId = ''1765829443.779816''"

definition guideCall :: "event list" where
  "guideCall = [guideRinging, guideEnded, guideHunt, guideAnswered]"

text \<open>Two ended events: the external leg ends first, the phone leg a minute later.\<close>

definition externalEnded :: event where
  "externalEnded = leg ''recE8'' ''ended'' ''external'' ''ivr'' ''Day'' 98"

definition phoneEnded :: event where
  "phoneEnded = leg ''recE9'' ''ended'' ''huntgroup'' ''phone'' ''Chaim David Klein'' 158"

definition twoEnded :: "event list" where
  "twoEnded = [guideRinging, guideAnswered, externalEnded, phoneEnded]"

text \<open>
  An event without \<open>Start Time\<close>, received 5 s after the call's start, and an event
  that started 2 s after the call's start.
\<close>

definition lateReceived :: event where
  "lateReceived = (leg ''recE1'' ''ringing'' ''external'' ''ivr'' ''Day'' 5)\<lparr>StartTime := None\<rparr>"

definition startedEarlier :: event where
  "startedEarlier = leg ''recE2'' ''ringing'' ''ivr'' ''ivr'' ''discuss something'' 2"



text \<open>
  A world with an empty \<open>Calls\<close> table and the four events of \<open>guideCall\<close> unprocessed;
  a store that never fails, and one that refuses every update of events.
\<close>

definition emptyWorld :: world where
  "emptyWorld = \<lparr>callsTable = [], eventsTable = [], nextRecord = 1,
                  now = Instant (callStart + 300000), errorLog = []\<rparr>"

definition guideWorld :: world where
  "guideWorld = emptyWorld\<lparr>eventsTable := guideCall\<rparr>"


text \<open>
  A second call with one event, stored before those of the first; a store that refuses
  the lookup of the second call's record and nothing else.
\<close>

definition otherCallId :: string where
  "otherCallId = ''1765829000.000001''"

definition otherRinging :: event where
  "otherRinging = (leg ''recF1'' ''ringing'' ''external'' ''ivr'' ''Day'' (- 443))
     \<lparr>CallID := Some otherCallId\<rparr>"

definition twoCallsWorld :: world where
  "twoCallsWorld = emptyWorld\<lparr>eventsTable := otherRinging # guideCall\<rparr>"

definition lookupFails :: faults where
  "lookupFails r = (r = SelectCalls otherCallId)"

definition noFaults :: faults where
  "noFaults r = False"

definition markingFails :: faults where
  "markingFails r = (case r of UpdateEvents ids \<Rightarrow> True | _ \<Rightarrow> False)"

section \<open>Evaluating the examples\<close>

lemma leg_sel:
  "recId (leg i st sendT destT destN secs) = i"
  "CallID (leg i st sendT destT destN secs) = Some ''1765829443.779816''"
  "Status (leg i st sendT destT destN secs) = Some st"
  "Direction (leg i st sendT destT destN secs) = Some ''incoming''"
  "SendType (leg i st sendT destT destN secs) = Some sendT"
  "SendName (leg i st sendT destT destN secs) = None"
  "SendNumber (leg i st sendT destT destN secs) = Some ''18455021115''"
  "DestinationType (leg i st sendT destT destN secs) = Some destT"
  "DestinationName (leg i st sendT destT destN secs) = textCell destN"
  "DestinationNumber (leg i st sendT destT destN secs) = None"
  "CalledNumber (leg i st sendT destT destN secs) = Some ''17186732999''"
  "CallerIDExternal (leg i st sendT destT destN secs) = Some ''18455021115''"
  "CallerNameExternal (leg i st sendT destT destN secs) = None"
  "StartTime (leg i st sendT destT destN secs) = Some (Instant (callStart + 1000 * secs))"
  "CallStartTime (leg i st sendT destT destN secs) = Some (Instant callStart)"
  "ReceivedAt (leg i st sendT destT destN secs) = Some (Instant (callStart + 1000 * secs))"
  "Processed (leg i st sendT destT destN secs) = False"
  "MergedCallRecord (leg i st sendT destT destN secs) = []"
  by (simp_all add: leg_def blankEvent_def)

lemmas leg_defs =
  guideRinging_def guideEnded_def guideHunt_def guideAnswered_def externalEnded_def
  phoneEnded_def

lemmas js_defs =
  textCell_def strictEq_def truthy_def orElse_def orElseT_def toStr_def ofOption_def
  truthyN_def

lemma toDouble_pos: "0 < toDouble d \<longleftrightarrow> 0 < d"
  by (auto simp: toDouble_def)

lemma comesAfter_iff:
  "comesAfter key a b = (case (key a, key b) of (Some x, Some y) \<Rightarrow> y < x | _ \<Rightarrow> False)"
  by (simp add: comesAfter_def minusDate_def toDouble_pos split: option.splits)

lemma leg_time:
  "\<bar>secs\<bar> \<le> 1000000 \<Longrightarrow> newDate (Some (Instant (callStart + 1000 * secs))) = Some (callStart + 1000 * secs)"
  by (simp add: newDate_def callStart_def)

lemma callStart_time: "newDate (Some (Instant callStart)) = Some callStart"
  by (simp add: newDate_def callStart_def)

lemma leg_sortKey:
  "\<bar>secs\<bar> \<le> 1000000 \<Longrightarrow> sortKey (leg i st sendT destT destN secs) = Some (callStart + 1000 * secs)"
  by (simp add: sortKey_def leg_sel orElseT_def leg_time)

lemma guideCall_sorted: "sortBy sortKey guideCall = guideCall"
  by (simp add: sortBy_def guideCall_def leg_defs comesAfter_iff leg_sortKey)

lemma twoEnded_sorted: "sortBy sortKey twoEnded = twoEnded"
  by (simp add: sortBy_def twoEnded_def leg_defs comesAfter_iff leg_sortKey)

section \<open>Fact extraction returns for every non-empty group\<close>

lemma extract_returns:
  "events \<noteq> [] \<Longrightarrow> \<exists>cd. extractCallData events = Inr cd"
  by (cases events) (simp_all add: extractCallData_def Let_def split: prod.splits)

lemma extract_ivrPath:
  "extractCallData events = Inr cd \<Longrightarrow> ivrPath cd = join arrow (buildIvrPath events)"
  by (auto simp: extractCallData_def Let_def split: list.splits prod.splits)

section \<open>The IVR path\<close>

lemma ivrStep_ivrName:
  "ivrStep e path =
     (case ivrName e of None \<Rightarrow> path
      | Some n \<Rightarrow> if n \<in> set path then path else path @ [n])"
  by (auto simp: ivrStep_def ivrName_def truthy_def split: option.splits)

lemma ivrName_nonempty: "ivrName e = Some n \<Longrightarrow> n \<noteq> []"
  by (auto simp: ivrName_def truthy_def split: if_splits)

lemma fold_ivrStep_nonempty:
  "\<forall>n \<in> set acc. n \<noteq> [] \<Longrightarrow> \<forall>n \<in> set (fold ivrStep events acc). n \<noteq> []"
proof (induction events arbitrary: acc)
  case Nil
  then show ?case by simp
next
  case (Cons e events)
  have "\<forall>n \<in> set (ivrStep e acc). n \<noteq> []"
    using Cons.prems by (auto simp: ivrStep_ivrName dest: ivrName_nonempty split: option.splits)
  then show ?case using Cons.IH by simp
qed

lemma ivrStep_blank:
  "\<not> truthy (DestinationName e) \<Longrightarrow> ivrStep e path = path"
  by (auto simp: ivrStep_def truthy_def split: option.splits)

text \<open>
  C10. Every entry of the extracted IVR path is a non-empty name; an event whose
  destination name is blank or missing adds nothing to the path, wherever it stands
  in the group; and the record's \<open>ivrPath\<close> is the join of exactly these entries, so
  the joined text has no empty segment.
\<close>

theorem ivr_path_entries_nonempty:
  "(\<forall>n \<in> set (buildIvrPath events). n \<noteq> [])
   \<and> (\<not> truthy (DestinationName e) \<longrightarrow>
        buildIvrPath (before @ e # after) = buildIvrPath (before @ after))
   \<and> (\<forall>cd. extractCallData events = Inr cd \<longrightarrow> ivrPath cd = join arrow (buildIvrPath events))"
  using fold_ivrStep_nonempty[of "[]" events]
  by (simp add: buildIvrPath_def ivrStep_blank extract_ivrPath)

lemma ivrWithBlank_path: "buildIvrPath ivrWithBlank = [''Day'', ''discuss something'']"
  by (simp add: ivrWithBlank_def buildIvrPath_def ivrStep_def leg_sel js_defs)

theorem ivr_path_entries_nonempty_witness:
  "\<not> truthy (DestinationName (ivrWithBlank ! 1))
   \<and> buildIvrPath ivrWithBlank = buildIvrPath [ivrWithBlank ! 0, ivrWithBlank ! 2]
   \<and> buildIvrPath ivrWithBlank = [''Day'', ''discuss something'']
   \<and> [] \<notin> set (buildIvrPath ivrWithBlank)
   \<and> map_sum id ivrPath (extractCallData ivrWithBlank)
       = Inr (''Day'' @ arrow @ ''discuss something'')"
proof -
  have blank: "\<not> truthy (DestinationName (ivrWithBlank ! 1))"
    by (simp add: ivrWithBlank_def leg_sel js_defs)
  have parts: "ivrWithBlank = [ivrWithBlank ! 0] @ (ivrWithBlank ! 1) # [ivrWithBlank ! 2]"
    by (simp add: ivrWithBlank_def)
  obtain cd where cd: "extractCallData ivrWithBlank = Inr cd"
    using extract_returns[of ivrWithBlank] by (auto simp: ivrWithBlank_def)
  note inst = ivr_path_entries_nonempty
    [of ivrWithBlank "ivrWithBlank ! 1" "[ivrWithBlank ! 0]" "[ivrWithBlank ! 2]"]
  from inst blank
  have "buildIvrPath ([ivrWithBlank ! 0] @ (ivrWithBlank ! 1) # [ivrWithBlank ! 2])
      = buildIvrPath ([ivrWithBlank ! 0] @ [ivrWithBlank ! 2])"
    by blast
  with parts
  have drop: "buildIvrPath ivrWithBlank = buildIvrPath [ivrWithBlank ! 0, ivrWithBlank ! 2]"
    by simp
  from inst have nonempty: "[] \<notin> set (buildIvrPath ivrWithBlank)" by blast
  from inst cd have "ivrPath cd = join arrow (buildIvrPath ivrWithBlank)" by blast
  with cd have path: "map_sum id ivrPath (extractCallData ivrWithBlank)
      = Inr (''Day'' @ arrow @ ''discuss something'')"
    by (simp add: ivrWithBlank_path)
  show ?thesis using blank drop nonempty path by (simp add: ivrWithBlank_path)
qed

lemma ivrNames_Cons:
  "ivrNames (e # es) = (case ivrName e of None \<Rightarrow> ivrNames es | Some n \<Rightarrow> n # ivrNames es)"
  by (simp add: ivrNames_def map_filter_simps split: option.splits)

lemma fold_ivrStep_names:
  "fold ivrStep events acc =
     fold (\<lambda>n path. if n \<in> set path then path else path @ [n]) (ivrNames events) acc"
proof (induction events arbitrary: acc)
  case Nil
  then show ?case by (simp add: ivrNames_def map_filter_simps)
next
  case (Cons e events)
  then show ?case by (simp add: ivrNames_Cons ivrStep_ivrName split: option.splits)
qed

lemma fold_firstSeen:
  "distinct acc \<Longrightarrow>
   distinct (fold (\<lambda>n path. if n \<in> set path then path else path @ [n]) ns acc)
   \<and> set (fold (\<lambda>n path. if n \<in> set path then path else path @ [n]) ns acc) = set acc \<union> set ns"
  by (induction ns arbitrary: acc) auto

lemma ivrRevisit_names: "ivrNames ivrRevisit = [''A'', ''A'', ''B'', ''A'']"
  by (simp add: ivrRevisit_def ivrNames_def ivrName_def map_filter_simps leg_sel js_defs)

text \<open>
  C4, as the claim states it: for the IVR destinations A, A, B, A the path would be
  \<open>A \<rightarrow> B \<rightarrow> A\<close>. The code gives \<open>A \<rightarrow> B\<close>.
\<close>

theorem ivr_revisit_counterexample:
  "ivrNames ivrRevisit = [''A'', ''A'', ''B'', ''A'']
   \<and> map_sum id ivrPath (extractCallData ivrRevisit) = Inr (''A'' @ arrow @ ''B'')
   \<and> map_sum id ivrPath (extractCallData ivrRevisit)
       \<noteq> Inr (''A'' @ arrow @ ''B'' @ arrow @ ''A'')"
proof -
  obtain cd where cd: "extractCallData ivrRevisit = Inr cd"
    using extract_returns[of ivrRevisit] by (auto simp: ivrRevisit_def)
  have "buildIvrPath ivrRevisit = [''A'', ''B'']"
    by (simp add: ivrRevisit_def buildIvrPath_def ivrStep_def leg_sel js_defs)
  with cd extract_ivrPath[OF cd] show ?thesis
    by (simp add: ivrRevisit_names arrow_def)
qed

text \<open>
  C4, amended. A name enters the path only when the path does not hold it yet: the
  path has no repetition and holds exactly the IVR destinations of the group. For the
  IVR destinations A, A, B, A (A and B different) the path is \<open>A \<rightarrow> B\<close>: the adjacent
  duplicate is collapsed and the later re-visit of A is dropped as well.
\<close>

theorem ivr_revisit_not_kept:
  "distinct (buildIvrPath events)
   \<and> set (buildIvrPath events) = set (ivrNames events)
   \<and> (ivrNames events = [a, a, b, a] \<and> a \<noteq> b \<longrightarrow>
        buildIvrPath events = [a, b]
        \<and> (\<forall>cd. extractCallData events = Inr cd \<longrightarrow> ivrPath cd = a @ arrow @ b))"
proof -
  have names: "buildIvrPath events =
      fold (\<lambda>n path. if n \<in> set path then path else path @ [n]) (ivrNames events) []"
    by (simp add: buildIvrPath_def fold_ivrStep_names)
  have "distinct (buildIvrPath events) \<and> set (buildIvrPath events) = set (ivrNames events)"
    using fold_firstSeen[of "[]" "ivrNames events"] names by simp
  moreover have "buildIvrPath events = [a, b]" if "ivrNames events = [a, a, b, a]" "a \<noteq> b"
    using that names by simp
  ultimately show ?thesis by (auto dest: extract_ivrPath)
qed

theorem ivr_revisit_not_kept_witness:
  "ivrNames ivrRevisit = [''A'', ''A'', ''B'', ''A''] \<and> ''A'' \<noteq> ''B''
   \<and> buildIvrPath ivrRevisit = [''A'', ''B'']
   \<and> distinct (buildIvrPath ivrRevisit)
   \<and> map_sum id ivrPath (extractCallData ivrRevisit) = Inr (''A'' @ arrow @ ''B'')"
proof -
  obtain cd where cd: "extractCallData ivrRevisit = Inr cd"
    using extract_returns[of ivrRevisit] by (auto simp: ivrRevisit_def)
  have ne: "''A'' \<noteq> ''B''" by simp
  from ivr_revisit_not_kept[of ivrRevisit "''A''" "''B''"] ivrRevisit_names ne cd
  have "buildIvrPath ivrRevisit = [''A'', ''B''] \<and> ivrPath cd = ''A'' @ arrow @ ''B''"
    by blast
  with cd ivrRevisit_names show ?thesis by simp
qed

section \<open>An empty group\<close>

lemma pushTo_nonempty:
  "\<forall>g \<in> set grouped. snd g \<noteq> [] \<Longrightarrow> \<forall>g \<in> set (pushTo k e grouped). snd g \<noteq> []"
  by (induction k e grouped rule: pushTo.induct) auto

lemma groupEvents_nonempty:
  "groupEvents events grouped = Inr result \<Longrightarrow> \<forall>g \<in> set grouped. snd g \<noteq> [] \<Longrightarrow>
   \<forall>g \<in> set result. snd g \<noteq> []"
proof (induction events arbitrary: grouped)
  case Nil
  then show ?case by simp
next
  case (Cons e events)
  from Cons.prems(1) have "groupEvents events (pushTo (toStr (CallID e)) e grouped) = Inr result"
    by (simp add: Let_def split: if_splits)
  moreover have "\<forall>g \<in> set (pushTo (toStr (CallID e)) e grouped). snd g \<noteq> []"
    using Cons.prems(2) by (rule pushTo_nonempty)
  ultimately show ?case by (rule Cons.IH)
qed

text \<open>
  C8, as the claim states it: extraction from an empty group would return a record
  classified as Abandoned. The code throws.
\<close>

theorem extract_empty_counterexample: "extractCallData [] = Inl TypeError"
  by (simp add: extractCallData_def)

text \<open>
  C8, amended. Fact extraction throws a \<open>TypeError\<close> exactly when the group is empty,
  and returns a record for every non-empty group. Its callers keep an empty group
  away from it: grouping produces no empty group, and \<open>processSingleCall\<close> returns
  \<open>null\<close>, the store untouched, when the call has no events.
\<close>

theorem extract_throws_on_empty_group:
  "(extractCallData events = Inl TypeError \<longleftrightarrow> events = [])
   \<and> (events \<noteq> [] \<longrightarrow> (\<exists>cd. extractCallData events = Inr cd))
   \<and> (groupEvents rows [] = Inr grouped \<longrightarrow> (\<forall>g \<in> set grouped. snd g \<noteq> []))
   \<and> (getEventsByCallId f (eventsTable w) c = Inr [] \<longrightarrow>
        processSingleCall f w c = (w, Inr None))"
proof -
  have "extractCallData events = Inl TypeError \<longleftrightarrow> events = []"
    using extract_returns[of events] by (cases events) (auto simp: extractCallData_def)
  moreover have "\<forall>g \<in> set grouped. snd g \<noteq> []" if "groupEvents rows [] = Inr grouped"
    using groupEvents_nonempty[OF that] by simp
  moreover have "processSingleCall f w c = (w, Inr None)"
    if "getEventsByCallId f (eventsTable w) c = Inr []"
    using that by (simp add: processSingleCall_def)
  ultimately show ?thesis using extract_returns[of events] by blast
qed

lemma guideCall_grouped:
  "groupEvents guideCall [] = Inr [(''1765829443.779816'', guideCall)]"
  by (simp add: guideCall_def guideRinging_def guideEnded_def guideHunt_def guideAnswered_def
        inheritedKeys_def leg_sel toStr_def)

theorem extract_throws_on_empty_group_witness:
  "ivrRevisit \<noteq> [] \<and> extractCallData ivrRevisit \<noteq> Inl TypeError
   \<and> groupEvents guideCall [] = Inr [(''1765829443.779816'', guideCall)]
   \<and> guideCall \<noteq> []
   \<and> getEventsByCallId noFaults (eventsTable emptyWorld) ''1765829443.779816'' = Inr []
   \<and> processSingleCall noFaults emptyWorld ''1765829443.779816'' = (emptyWorld, Inr None)"
proof -
  have ne: "ivrRevisit \<noteq> []" by (simp add: ivrRevisit_def)
  have fetch: "getEventsByCallId noFaults (eventsTable emptyWorld) ''1765829443.779816'' = Inr []"
    by (simp add: getEventsByCallId_def noFaults_def emptyWorld_def sortBy_def)
  note inst = extract_throws_on_empty_group
    [of ivrRevisit guideCall "[(''1765829443.779816'', guideCall)]" noFaults emptyWorld
        "''1765829443.779816''"]
  from inst ne have "extractCallData ivrRevisit \<noteq> Inl TypeError" by blast
  moreover from inst guideCall_grouped have "guideCall \<noteq> []" by auto
  moreover from inst fetch
  have "processSingleCall noFaults emptyWorld ''1765829443.779816'' = (emptyWorld, Inr None)"
    by blast
  ultimately show ?thesis using ne fetch guideCall_grouped by simp
qed

section \<open>The disposition\<close>

lemma join_nonempty: "xs \<noteq> [] \<Longrightarrow> hd xs \<noteq> [] \<Longrightarrow> join sep xs \<noteq> []"
  by (induction sep xs rule: join.induct) auto

lemma buildIvrPath_nonempty_entries: "\<forall>n \<in> set (buildIvrPath events). n \<noteq> []"
  using fold_ivrStep_nonempty[of "[]" events] by (simp add: buildIvrPath_def)

lemma ivrPath_text_empty_iff:
  "join arrow (buildIvrPath events) = [] \<longleftrightarrow> buildIvrPath events = []"
proof
  assume "join arrow (buildIvrPath events) = []"
  then show "buildIvrPath events = []"
    using join_nonempty[of "buildIvrPath events" arrow] buildIvrPath_nonempty_entries[of events]
    by (cases "buildIvrPath events") auto
next
  assume "buildIvrPath events = []"
  then show "join arrow (buildIvrPath events) = []" by simp
qed

lemma find_None_set: "find P xs = None \<longleftrightarrow> (\<forall>x \<in> set xs. \<not> P x)"
  by (induction xs) auto

lemma find_first:
  "xs = pre @ e # post \<Longrightarrow> \<forall>x \<in> set pre. \<not> P x \<Longrightarrow> P e \<Longrightarrow> find P xs = Some e"
  by (induction pre arbitrary: xs) auto

lemma extract_fields:
  assumes "extractCallData events = Inr cd"
  shows "finalStatus cd =
           fst (decideStatus (find isAnswered events \<noteq> None) (huntGroupOf events)
                  (buildIvrPath events)
                  (if strictEq (Direction (hd events)) ''incoming'' then ''Inbound'' else ''Outbound''))"
    and "huntGroup cd = huntGroupOf events"
    and "duration cd = durationOf (find isAnswered events) (find isEndedExternal events)"
    and "endTime cd = (case find isEndedExternal events of
                         Some e \<Rightarrow> ofOption (StartTime e) | None \<Rightarrow> Null)"
    and "answerTime cd = (case find isAnswered events of
                            Some a \<Rightarrow> StartTime a | None \<Rightarrow> None)"
    and "telebroadCallId cd = CallID (hd events)"
  using assms
  by (auto simp: extractCallData_def Let_def split: list.splits prod.splits)

lemma extract_written:
  assumes "extractCallData events = Inr cd"
  shows "summary cd =
    summaryOf
      (if truthy (CallerNameExternal (hd events)) then toStr (CallerNameExternal (hd events))
       else [])
      (orElse (CallerIDExternal (hd events)) (SendNumber (hd events)))
      (buildIvrPath events) (huntGroupOf events) (find isAnswered events) (duration cd)
      (finalStatus cd)"
    and "direction cd \<noteq> []" and "finalStatus cd \<noteq> []"
    and "webhookEvents cd = length events" and "rawWebhookData cd = events"
  using assms
  by (auto simp: extractCallData_def Let_def decideStatus_def
           split: list.splits prod.splits if_splits)

text \<open>
  C2, amended. For every non-empty group the extraction returns a record whose
  \<open>finalStatus\<close> follows the table in strict order: \<open>Answered\<close> when some event is
  answered with a destination of type phone; otherwise \<open>Missed\<close> when the extracted
  hunt-group label is non-empty, which is when the first event with a hunt-group
  destination or source carries a non-empty destination or source name; otherwise
  \<open>IVR Only\<close> when the IVR path is non-empty; otherwise \<open>Abandoned\<close>. A group with
  both a hunt-group leg and an answered-by-phone leg is \<open>Answered\<close>.
\<close>

theorem final_status_decision_table:
  "events \<noteq> [] \<longrightarrow>
     (\<exists>cd. extractCallData events = Inr cd
        \<and> finalStatus cd =
            (if \<exists>e \<in> set events. isAnswered e then ''Answered''
             else if truthyN (huntGroup cd) then ''Missed''
             else if ivrPath cd \<noteq> [] then ''IVR Only''
             else ''Abandoned'')
        \<and> (truthyN (huntGroup cd) \<longleftrightarrow>
             (case find isHuntGroup events of
                Some e \<Rightarrow> truthy (DestinationName e) \<or> truthy (SendName e)
              | None \<Rightarrow> False))
        \<and> ((\<exists>e \<in> set events. isHuntGroup e) \<and> (\<exists>e \<in> set events. isAnswered e)
              \<longrightarrow> finalStatus cd = ''Answered''))"
proof
  assume "events \<noteq> []"
  then obtain cd where cd: "extractCallData events = Inr cd"
    using extract_returns by blast
  have answered: "find isAnswered events \<noteq> None \<longleftrightarrow> (\<exists>e \<in> set events. isAnswered e)"
    by (simp add: find_None_set)
  have path: "ivrPath cd \<noteq> [] \<longleftrightarrow> length (buildIvrPath events) > 0"
    using extract_ivrPath[OF cd] by (simp add: ivrPath_text_empty_iff)
  have status: "finalStatus cd =
      (if \<exists>e \<in> set events. isAnswered e then ''Answered''
       else if truthyN (huntGroup cd) then ''Missed''
       else if ivrPath cd \<noteq> [] then ''IVR Only''
       else ''Abandoned'')"
    unfolding extract_fields(1)[OF cd] extract_fields(2)[OF cd] path answered
    by (simp add: decideStatus_def)
  have hunt: "truthyN (huntGroup cd) \<longleftrightarrow>
      (case find isHuntGroup events of
         Some e \<Rightarrow> truthy (DestinationName e) \<or> truthy (SendName e)
       | None \<Rightarrow> False)"
    unfolding extract_fields(2)[OF cd]
    by (auto simp: huntGroupOf_def truthyN_def ofOption_def orElse_def truthy_def
             split: option.splits)
  from cd status hunt show "\<exists>cd. extractCallData events = Inr cd
        \<and> finalStatus cd =
            (if \<exists>e \<in> set events. isAnswered e then ''Answered''
             else if truthyN (huntGroup cd) then ''Missed''
             else if ivrPath cd \<noteq> [] then ''IVR Only''
             else ''Abandoned'')
        \<and> (truthyN (huntGroup cd) \<longleftrightarrow>
             (case find isHuntGroup events of
                Some e \<Rightarrow> truthy (DestinationName e) \<or> truthy (SendName e)
              | None \<Rightarrow> False))
        \<and> ((\<exists>e \<in> set events. isHuntGroup e) \<and> (\<exists>e \<in> set events. isAnswered e)
              \<longrightarrow> finalStatus cd = ''Answered'')"
    by auto
qed

text \<open>
  C2, as the claim states it: a group with a hunt-group leg and no answer would be
  \<open>Missed\<close>. With a hunt-group leg that carries no name the code answers \<open>IVR Only\<close>.
\<close>

theorem hunt_group_without_name_counterexample:
  "list_ex isHuntGroup unnamedHuntGroup
   \<and> \<not> list_ex isAnswered unnamedHuntGroup
   \<and> map_sum id finalStatus (extractCallData unnamedHuntGroup) = Inr ''IVR Only''"
proof -
  obtain cd where cd: "extractCallData unnamedHuntGroup = Inr cd"
    using extract_returns[of unnamedHuntGroup] by (auto simp: unnamedHuntGroup_def)
  have "finalStatus cd = ''IVR Only''"
    unfolding extract_fields(1)[OF cd]
    by (simp add: unnamedHuntGroup_def decideStatus_def huntGroupOf_def buildIvrPath_def
          ivrStep_def isAnswered_def isHuntGroup_def leg_sel js_defs)
  moreover have "list_ex isHuntGroup unnamedHuntGroup \<and> \<not> list_ex isAnswered unnamedHuntGroup"
    by (simp add: unnamedHuntGroup_def isAnswered_def isHuntGroup_def leg_sel js_defs)
  ultimately show ?thesis using cd by simp
qed

theorem final_status_decision_table_witness:
  "huntThenAnswered \<noteq> []
   \<and> list_ex isHuntGroup huntThenAnswered \<and> list_ex isAnswered huntThenAnswered
   \<and> map_sum id finalStatus (extractCallData huntThenAnswered) = Inr ''Answered''"
proof -
  have ne: "huntThenAnswered \<noteq> []" by (simp add: huntThenAnswered_def)
  have both: "list_ex isHuntGroup huntThenAnswered \<and> list_ex isAnswered huntThenAnswered"
    by (simp add: huntThenAnswered_def isAnswered_def isHuntGroup_def leg_sel js_defs)
  then have "(\<exists>e \<in> set huntThenAnswered. isHuntGroup e) \<and> (\<exists>e \<in> set huntThenAnswered. isAnswered e)"
    by (simp add: list_ex_iff)
  with final_status_decision_table[of huntThenAnswered] ne
  obtain cd where "extractCallData huntThenAnswered = Inr cd" "finalStatus cd = ''Answered''"
    by blast
  then show ?thesis using ne both by simp
qed

section \<open>Duration and end time\<close>

lemma guideCall_found:
  "find isAnswered guideCall = Some guideAnswered"
  "find isEndedExternal guideCall = Some guideEnded"
  "StartTime guideAnswered = Some (Instant (callStart + 38000))"
  "StartTime guideEnded = Some (Instant callStart)"
  by (simp_all add: guideCall_def leg_defs isAnswered_def isEndedExternal_def leg_sel js_defs)

lemma guideCall_ne: "guideCall \<noteq> []"
  by (simp add: guideCall_def)

lemma guideCall_duration:
  "durationOf (Some guideAnswered) (Some guideEnded) = Some (- 38)"
proof -
  have "newDate (StartTime guideEnded) = Some callStart"
    by (simp add: guideCall_found callStart_time)
  moreover have "newDate (StartTime guideAnswered) = Some (callStart + 38000)"
    using leg_time[of 38] by (simp add: guideCall_found)
  ultimately show ?thesis
    by (simp add: durationOf_def minusDate_def toDouble_def roundSeconds_def)
qed

lemma guideCall_summary:
  assumes cd: "extractCallData guideCall = Inr cd"
  shows "summary cd =
    ''From: 18455021115 | IVR: Day | Hunt Group: talk to Madrech | Answered by: Chaim David Klein''"
proof -
  have d: "duration cd = Some (- 38)"
    by (simp add: extract_fields(3)[OF cd] guideCall_found(1,2) guideCall_duration)
  have path: "buildIvrPath guideCall = [''Day'']"
    by (simp add: guideCall_def leg_defs buildIvrPath_def ivrStep_def leg_sel js_defs)
  have hg: "huntGroupOf guideCall = Val ''talk to Madrech''"
    by (simp add: guideCall_def leg_defs huntGroupOf_def isHuntGroup_def leg_sel js_defs)
  have hd: "hd guideCall = guideRinging" by (simp add: guideCall_def)
  show ?thesis
    unfolding extract_written(1)[OF cd] d path hg hd guideCall_found(1)
    by (simp add: summaryOf_def leg_defs leg_sel js_defs)
qed

text \<open>
  C3. An answer time later than the end time is to give a duration of 0. The call of
  the merge guide is such a call: its ended event is that of the external leg and
  carries the leg's start, 15:10:43, and the answer is at 15:11:21. \<open>mergeCallEvents\<close>
  hands its events over in this order, \<open>extractCallData\<close> returns a duration of -38 for
  them, and \<open>createCall\<close> writes -38 to \<open>Duration\<close>, the column that the guide describes
  as the call length in seconds. The summary, which prints a duration only when it is
  positive, has none for this answered call.
\<close>

theorem guide_call_duration_negative:
  "sortBy sortKey guideCall = guideCall
   \<and> map_sum id answerTime (extractCallData guideCall) = Inr (Some (Instant (callStart + 38000)))
   \<and> map_sum id endTime (extractCallData guideCall) = Inr (Val (Instant callStart))
   \<and> map_sum id duration (extractCallData guideCall) = Inr (Some (- 38))
   \<and> map_sum id (F_DURATION \<circ> fieldsToCreate emptyWorld) (extractCallData guideCall)
       = Inr (Some (- 38))
   \<and> map_sum id summary (extractCallData guideCall)
       = Inr ''From: 18455021115 | IVR: Day | Hunt Group: talk to Madrech | Answered by: Chaim David Klein''"
proof -
  obtain cd where cd: "extractCallData guideCall = Inr cd"
    using extract_returns[OF guideCall_ne] by blast
  have d: "duration cd = Some (- 38)"
    by (simp add: extract_fields(3)[OF cd] guideCall_found(1,2) guideCall_duration)
  have a: "answerTime cd = Some (Instant (callStart + 38000))"
    by (simp add: extract_fields(5)[OF cd] guideCall_found)
  have e: "endTime cd = Val (Instant callStart)"
    by (simp add: extract_fields(4)[OF cd] guideCall_found ofOption_def)
  have "F_DURATION (fieldsToCreate emptyWorld cd) = Some (- 38)"
    by (simp add: fieldsToCreate_def d)
  with d a e guideCall_summary[OF cd] show ?thesis using cd guideCall_sorted by simp
qed

text \<open>
  C5, amended. For every non-empty group the record's \<open>endTime\<close> is the \<open>Start Time\<close>
  of the first event, in order, whose status is \<open>ended\<close> and whose source type is
  \<open>external\<close>; when no event is both, \<open>endTime\<close> is \<open>null\<close>.
\<close>

theorem end_time_first_external_ended:
  "events \<noteq> [] \<longrightarrow>
     (\<exists>cd. extractCallData events = Inr cd
        \<and> ((\<forall>x \<in> set events. \<not> isEndedExternal x) \<longrightarrow> endTime cd = Null)
        \<and> (\<forall>pre e post.
              events = pre @ e # post \<and> (\<forall>x \<in> set pre. \<not> isEndedExternal x)
              \<and> isEndedExternal e
              \<longrightarrow> endTime cd = ofOption (StartTime e)))"
proof
  assume "events \<noteq> []"
  then obtain cd where cd: "extractCallData events = Inr cd"
    using extract_returns by blast
  have none: "endTime cd = Null" if "\<forall>x \<in> set events. \<not> isEndedExternal x"
    using that unfolding extract_fields(4)[OF cd] by (simp add: find_None_set[symmetric])
  have first: "endTime cd = ofOption (StartTime e)"
    if "events = pre @ e # post" "\<forall>x \<in> set pre. \<not> isEndedExternal x" "isEndedExternal e"
    for pre e post
    unfolding extract_fields(4)[OF cd] using find_first[OF that] by simp
  show "\<exists>cd. extractCallData events = Inr cd
        \<and> ((\<forall>x \<in> set events. \<not> isEndedExternal x) \<longrightarrow> endTime cd = Null)
        \<and> (\<forall>pre e post.
              events = pre @ e # post \<and> (\<forall>x \<in> set pre. \<not> isEndedExternal x)
              \<and> isEndedExternal e
              \<longrightarrow> endTime cd = ofOption (StartTime e))"
  proof (rule exI[of _ cd], intro conjI)
    show "extractCallData events = Inr cd" by (rule cd)
    show "(\<forall>x \<in> set events. \<not> isEndedExternal x) \<longrightarrow> endTime cd = Null"
      using none by blast
    show "\<forall>pre e post.
              events = pre @ e # post \<and> (\<forall>x \<in> set pre. \<not> isEndedExternal x)
              \<and> isEndedExternal e
              \<longrightarrow> endTime cd = ofOption (StartTime e)"
      using first by blast
  qed
qed

lemma twoEnded_ne: "twoEnded \<noteq> []"
  by (simp add: twoEnded_def)

lemma twoEnded_parts:
  "twoEnded = [guideRinging, guideAnswered] @ externalEnded # [phoneEnded]"
  "\<not> isEndedExternal guideRinging" "\<not> isEndedExternal guideAnswered"
  "isEndedExternal externalEnded"
  "StartTime externalEnded = Some (Instant (callStart + 98000))"
  "Status phoneEnded = Some ''ended''"
  "StartTime phoneEnded = Some (Instant (callStart + 158000))"
  "last twoEnded = phoneEnded"
  by (simp_all add: twoEnded_def leg_defs isEndedExternal_def leg_sel js_defs)

text \<open>
  C5, as the claim states it: \<open>endTime\<close> would be the time of the last ended event.
  With two ended events the code takes the earlier one, that of the external leg.
\<close>

theorem last_ended_counterexample:
  "Status (last twoEnded) = Some ''ended''
   \<and> StartTime (last twoEnded) = Some (Instant (callStart + 158000))
   \<and> map_sum id endTime (extractCallData twoEnded) = Inr (Val (Instant (callStart + 98000)))
   \<and> sortBy sortKey twoEnded = twoEnded"
proof -
  obtain cd where cd: "extractCallData twoEnded = Inr cd"
    using extract_returns[OF twoEnded_ne] by blast
  have "find isEndedExternal twoEnded = Some externalEnded"
    using find_first[OF twoEnded_parts(1), of isEndedExternal] twoEnded_parts by simp
  then have "endTime cd = Val (Instant (callStart + 98000))"
    unfolding extract_fields(4)[OF cd] by (simp add: twoEnded_parts ofOption_def)
  then show ?thesis using cd twoEnded_parts twoEnded_sorted by simp
qed

theorem end_time_first_external_ended_witness:
  "twoEnded \<noteq> []
   \<and> twoEnded = [guideRinging, guideAnswered] @ externalEnded # [phoneEnded]
   \<and> \<not> isEndedExternal guideRinging \<and> \<not> isEndedExternal guideAnswered
   \<and> isEndedExternal externalEnded
   \<and> map_sum id endTime (extractCallData twoEnded) = Inr (Val (Instant (callStart + 98000)))"
proof -
  have pre: "\<forall>x \<in> set [guideRinging, guideAnswered]. \<not> isEndedExternal x"
    using twoEnded_parts by simp
  from end_time_first_external_ended[of twoEnded] twoEnded_ne
  obtain cd where cd: "extractCallData twoEnded = Inr cd"
    and first: "\<forall>pre e post.
              twoEnded = pre @ e # post \<and> (\<forall>x \<in> set pre. \<not> isEndedExternal x)
              \<and> isEndedExternal e
              \<longrightarrow> endTime cd = ofOption (StartTime e)"
    by blast
  from first twoEnded_parts(1) pre twoEnded_parts(4)
  have "endTime cd = ofOption (StartTime externalEnded)" by blast
  then show ?thesis using cd twoEnded_ne twoEnded_parts by (simp add: ofOption_def)
qed

section \<open>The order of the events\<close>

lemma mset_insertBy: "mset (insertBy key x xs) = add_mset x (mset xs)"
  by (induction xs) auto

lemma mset_sortBy: "mset (sortBy key xs) = mset xs"
  unfolding sortBy_def by (induction xs) (auto simp: mset_insertBy)

lemma set_sortBy: "set (sortBy key xs) = set xs"
  using mset_sortBy[of key xs] by (metis set_mset_mset)

lemma length_sortBy: "length (sortBy key xs) = length xs"
  using mset_sortBy[of key xs] by (metis size_mset)

lemma sortBy_Nil_iff: "sortBy key xs = [] \<longleftrightarrow> xs = []"
  using length_sortBy[of key xs] by auto

lemma insertBy_insort:
  "key x = Some (k x) \<Longrightarrow> \<forall>y \<in> set ys. key y = Some (k y) \<Longrightarrow>
   insertBy key x ys = insort_key k x ys"
  by (induction ys) (auto simp: comesAfter_iff)

lemma sortBy_sort_key:
  "\<forall>x \<in> set xs. key x = Some (k x) \<Longrightarrow> sortBy key xs = sort_key k xs"
proof (induction xs)
  case Nil
  then show ?case by (simp add: sortBy_def)
next
  case (Cons x xs)
  then have "sortBy key xs = sort_key k xs" by simp
  moreover have "sortBy key (x # xs) = insertBy key x (sortBy key xs)"
    by (simp add: sortBy_def)
  moreover have "insertBy key x (sort_key k xs) = insort_key k x (sort_key k xs)"
    using Cons.prems by (intro insertBy_insort) auto
  ultimately show ?case by simp
qed

lemma sortBy_stable_ascending:
  assumes "\<forall>x \<in> set xs. key x \<noteq> None"
  shows "sorted_wrt (\<lambda>a b. \<exists>s t. key a = Some s \<and> key b = Some t \<and> s \<le> t) (sortBy key xs)"
    and "filter (\<lambda>x. key x = Some t) (sortBy key xs) = filter (\<lambda>x. key x = Some t) xs"
proof -
  define k where "k = (\<lambda>x. the (key x))"
  have valid: "\<forall>x \<in> set xs. key x = Some (k x)"
    using assms by (auto simp: k_def)
  then have eq: "sortBy key xs = sort_key k xs"
    by (rule sortBy_sort_key)
  have "sorted (map k (sort_key k xs))" by simp
  then have "sorted_wrt (\<lambda>a b. k a \<le> k b) (sort_key k xs)"
    by (simp add: sorted_map)
  then have "sorted_wrt (\<lambda>a b. \<exists>s t. key a = Some s \<and> key b = Some t \<and> s \<le> t) (sort_key k xs)"
    by (rule sorted_wrt_mono_rel[rotated]) (use valid in auto)
  then show "sorted_wrt (\<lambda>a b. \<exists>s t. key a = Some s \<and> key b = Some t \<and> s \<le> t) (sortBy key xs)"
    by (simp add: eq)
  have "filter (\<lambda>x. key x = Some t) (sort_key k xs) = filter (\<lambda>x. k x = t) (sort_key k xs)"
    by (rule filter_cong) (use valid in auto)
  also have "\<dots> = filter (\<lambda>x. k x = t) xs"
    by (rule sort_key_stable)
  also have "\<dots> = filter (\<lambda>x. key x = Some t) xs"
    by (rule filter_cong) (use valid in auto)
  finally show "filter (\<lambda>x. key x = Some t) (sortBy key xs) = filter (\<lambda>x. key x = Some t) xs"
    by (simp add: eq)
qed

lemma merge_sortedEvents:
  "mergeCallEvents f w c events = Inr (w', r) \<Longrightarrow> sortedEvents r = sortBy sortKey events"
  by (auto simp: mergeCallEvents_def Let_def split: sum.splits option.splits prod.splits)

text \<open>
  C6, amended. \<open>mergeCallEvents\<close> orders a group by \<open>Start Time\<close>, and for an event
  without \<open>Start Time\<close> the sort key falls back to that event's \<open>Received At\<close> (the
  Airtable automation script falls back to \<open>Call Start Time\<close>). The sorted group holds
  the same events; when every event has a valid sort key it is ascending by that key,
  and events with identical keys keep their arrival order.
\<close>

theorem sort_falls_back_to_received_at:
  "sortKey e = (case StartTime e of Some t \<Rightarrow> newDate (Some t) | None \<Rightarrow> newDate (ReceivedAt e))
   \<and> scriptSortKey e =
       (case StartTime e of
          Some t \<Rightarrow> newDate (Some t)
        | None \<Rightarrow> (case CallStartTime e of Some t \<Rightarrow> newDate (Some t) | None \<Rightarrow> Some 0))
   \<and> (\<forall>w' r. mergeCallEvents f w c events = Inr (w', r) \<longrightarrow>
         sortedEvents r = sortBy sortKey events)
   \<and> mset (sortBy sortKey events) = mset events
   \<and> ((\<forall>x \<in> set events. sortKey x \<noteq> None) \<longrightarrow>
        sorted_wrt (\<lambda>a b. \<exists>s t. sortKey a = Some s \<and> sortKey b = Some t \<and> s \<le> t)
          (sortBy sortKey events)
        \<and> (\<forall>t. filter (\<lambda>x. sortKey x = Some t) (sortBy sortKey events)
               = filter (\<lambda>x. sortKey x = Some t) events))"
proof -
  have "sortKey e = (case StartTime e of Some t \<Rightarrow> newDate (Some t) | None \<Rightarrow> newDate (ReceivedAt e))"
    by (simp add: sortKey_def orElseT_def split: option.splits)
  moreover have "scriptSortKey e =
       (case StartTime e of
          Some t \<Rightarrow> newDate (Some t)
        | None \<Rightarrow> (case CallStartTime e of Some t \<Rightarrow> newDate (Some t) | None \<Rightarrow> Some 0))"
    by (simp add: scriptSortKey_def orElseT_def split: option.splits)
  ultimately show ?thesis
    using sortBy_stable_ascending[of events sortKey] merge_sortedEvents[of f w c events]
    by (simp add: mset_sortBy)
qed

lemma lateReceived_keys:
  "StartTime lateReceived = None"
  "CallStartTime lateReceived = Some (Instant callStart)"
  "ReceivedAt lateReceived = Some (Instant (callStart + 5000))"
  "StartTime startedEarlier = Some (Instant (callStart + 2000))"
  "sortKey lateReceived = Some (callStart + 5000)"
  "sortKey startedEarlier = Some (callStart + 2000)"
  "scriptSortKey lateReceived = Some callStart"
  "scriptSortKey startedEarlier = Some (callStart + 2000)"
  by (simp_all add: lateReceived_def startedEarlier_def sortKey_def scriptSortKey_def leg_sel js_defs
        newDate_def callStart_def)

text \<open>
  C6, as the claim states it: an event without \<open>Start Time\<close> would be ordered by its
  \<open>Call Start Time\<close>. \<open>mergeCallEvents\<close> orders it by \<open>Received At\<close>, so the event that
  the claim puts first comes last.
\<close>

theorem sort_fallback_counterexample:
  "StartTime lateReceived = None
   \<and> CallStartTime lateReceived = Some (Instant callStart)
   \<and> StartTime startedEarlier = Some (Instant (callStart + 2000))
   \<and> sortBy sortKey [lateReceived, startedEarlier] = [startedEarlier, lateReceived]
   \<and> sortBy scriptSortKey [lateReceived, startedEarlier] = [lateReceived, startedEarlier]"
  by (simp add: lateReceived_keys sortBy_def comesAfter_iff)

theorem sort_falls_back_to_received_at_witness:
  "sortKey lateReceived = newDate (ReceivedAt lateReceived)
   \<and> sortKey lateReceived \<noteq> None \<and> sortKey startedEarlier \<noteq> None
   \<and> sortBy sortKey [lateReceived, startedEarlier] = [startedEarlier, lateReceived]
   \<and> sortKey startedEarlier = Some (callStart + 2000)
   \<and> sortKey lateReceived = Some (callStart + 5000)
   \<and> callStart + 2000 \<le> callStart + 5000
   \<and> filter (\<lambda>x. sortKey x = Some callStart) (sortBy sortKey guideCall)
       = [guideRinging, guideEnded]"
proof -
  have valid: "\<forall>x \<in> set guideCall. sortKey x \<noteq> None"
    by (simp add: guideCall_def leg_defs leg_sortKey)
  have "filter (\<lambda>x. sortKey x = Some callStart) guideCall = [guideRinging, guideEnded]"
    by (simp add: guideCall_def leg_defs leg_sortKey)
  with sort_falls_back_to_received_at[of guideRinging noFaults emptyWorld "[]" guideCall] valid
  have stable: "filter (\<lambda>x. sortKey x = Some callStart) (sortBy sortKey guideCall)
       = [guideRinging, guideEnded]"
    by simp
  from sort_falls_back_to_received_at[of lateReceived noFaults emptyWorld "[]" "[]"]
  have fallback: "sortKey lateReceived = newDate (ReceivedAt lateReceived)"
    by (simp add: lateReceived_keys(1))
  have order: "sortBy sortKey [lateReceived, startedEarlier] = [startedEarlier, lateReceived]"
    by (simp add: lateReceived_keys sortBy_def comesAfter_iff)
  show ?thesis
    by (intro conjI fallback order stable) (simp_all add: lateReceived_keys)
qed

section \<open>Grouping\<close>










section \<open>The upsert\<close>

lemma sortBy_single: "sortBy key [x] = [x]"
  by (simp add: sortBy_def)



lemma find_no_match:
  "\<not> f (SelectCalls c) \<Longrightarrow> filter (matchesCallId c) (callsTable w) = [] \<Longrightarrow>
   findByTelebroadCallId f w c = Inr None"
  by (simp add: findByTelebroadCallId_def findByTelebroadId_def sortBy_def)

lemma find_single_match:
  "\<not> f (SelectCalls c) \<Longrightarrow> filter (matchesCallId c) (callsTable w) = [r] \<Longrightarrow>
   findByTelebroadCallId f w c = Inr (Some r)"
  by (simp add: findByTelebroadCallId_def findByTelebroadId_def sortBy_single)




lemma fieldsToCreate_key:
  "rowId (fieldsToCreate w cd) = newRowId w"
  "F_TB_CALL_ID (fieldsToCreate w cd) = optCell (telebroadCallId cd)"
  by (simp_all add: fieldsToCreate_def)



lemma merge_not_found:
  assumes "events \<noteq> []" "findByTelebroadCallId f w c = Inr None" "\<not> f CreateCall"
  shows "\<exists>cd. extractCallData (sortBy sortKey events) = Inr cd
     \<and> mergeCallEvents f w c events =
         Inr (w\<lparr>callsTable := callsTable w @ [fieldsToCreate w cd],
                 nextRecord := Suc (nextRecord w)\<rparr>,
              \<lparr>mergeAction = Created, callRecordId = newRowId w, mergedData = cd,
               sortedEvents = sortBy sortKey events\<rparr>)"
proof -
  from assms(1) have "sortBy sortKey events \<noteq> []" by (simp add: sortBy_Nil_iff)
  then obtain cd where cd: "extractCallData (sortBy sortKey events) = Inr cd"
    using extract_returns by blast
  with assms(2,3) show ?thesis
    by (simp add: mergeCallEvents_def Let_def createCall_def fieldsToCreate_key)
qed












lemma guide_call_ids:
  "CallID guideRinging = Some guideCallId" "CallID guideEnded = Some guideCallId"
  "CallID guideHunt = Some guideCallId" "CallID guideAnswered = Some guideCallId"
  by (simp_all add: leg_defs leg_sel guideCallId_def)






section \<open>One pass over the groups\<close>

lemma createCall_keeps:
  "createCall f w cd = Inr (w1, row) \<Longrightarrow> eventsTable w1 = eventsTable w \<and> errorLog w1 = errorLog w"
  by (auto simp: createCall_def split: if_splits)

lemma updateCall_keeps:
  "updateCall f w i cd = Inr w1 \<Longrightarrow> eventsTable w1 = eventsTable w \<and> errorLog w1 = errorLog w"
  by (auto simp: updateCall_def split: if_splits)

lemma merge_keeps_events:
  assumes "mergeCallEvents f w c es = Inr (w1, r)"
  shows "eventsTable w1 = eventsTable w" and "errorLog w1 = errorLog w"
    and "sortedEvents r = sortBy sortKey es"
proof -
  from assms obtain cd where cd: "extractCallData (sortBy sortKey es) = Inr cd"
    by (cases "extractCallData (sortBy sortKey es)") (auto simp: mergeCallEvents_def Let_def)
  from assms cd obtain found where found: "findByTelebroadCallId f w c = Inr found"
    by (cases "findByTelebroadCallId f w c") (auto simp: mergeCallEvents_def Let_def)
  show "eventsTable w1 = eventsTable w" "errorLog w1 = errorLog w"
    "sortedEvents r = sortBy sortKey es"
  proof (atomize (full), cases found)
    case None
    with assms cd found obtain row where "createCall f w cd = Inr (w1, row)"
      "sortedEvents r = sortBy sortKey es"
      by (cases "createCall f w cd") (auto simp: mergeCallEvents_def Let_def)
    then show "eventsTable w1 = eventsTable w \<and> errorLog w1 = errorLog w \<and>
        sortedEvents r = sortBy sortKey es"
      using createCall_keeps by blast
  next
    case (Some existing)
    with assms cd found have "updateCall f w (rowId existing) cd = Inr w1"
      "sortedEvents r = sortBy sortKey es"
      by (cases "updateCall f w (rowId existing) cd"; auto simp: mergeCallEvents_def Let_def)+
    then show "eventsTable w1 = eventsTable w \<and> errorLog w1 = errorLog w \<and>
        sortedEvents r = sortBy sortKey es"
      using updateCall_keeps by blast
  qed
qed

lemma markRow_recId: "recId (markRow ids cr e) = recId e"
  by (simp add: markRow_def)

lemma markRow_other: "recId e \<notin> set ids \<Longrightarrow> markRow ids cr e = e"
  by (simp add: markRow_def)

lemma filter_markRow:
  assumes "S \<inter> set ids = {}"
  shows "filter (\<lambda>e. recId e \<in> S) (map (markRow ids cr) table)
     = filter (\<lambda>e. recId e \<in> S) table"
proof (induction table)
  case Nil
  then show ?case by simp
next
  case (Cons e table)
  show ?case
  proof (cases "recId e \<in> S")
    case True
    with assms have "recId e \<notin> set ids" by blast
    then have "markRow ids cr e = e" by (rule markRow_other)
    with True Cons.IH show ?thesis by simp
  next
    case False
    with Cons.IH show ?thesis by (simp add: markRow_recId)
  qed
qed

lemma markBatches_rows:
  "S \<inter> set ids = {} \<Longrightarrow>
   filter (\<lambda>e. recId e \<in> S) (fst (markBatches n f table ids cr))
     = filter (\<lambda>e. recId e \<in> S) table"
proof (induction n arbitrary: table ids)
  case 0
  then show ?case by simp
next
  case (Suc n)
  have take: "S \<inter> set (take 10 ids) = {}"
    using Suc.prems by (meson disjoint_iff in_set_takeD)
  have drop: "S \<inter> set (drop 10 ids) = {}"
    using Suc.prems by (meson disjoint_iff in_set_dropD)
  show ?case
    using Suc.IH[OF drop, of "map (markRow (take 10 ids) cr) table"] filter_markRow[OF take]
    by simp
qed

lemma processCall_merged:
  assumes "mergeCallEvents f (fst st) (fst g) (snd g) = Inr (w1, r)"
    and "markMultipleAsProcessed f (eventsTable w1) (map recId (sortedEvents r)) (callRecordId r)
           = (table, res)"
  shows "processCall f g st =
     (case res of
        Inl err \<Rightarrow> (logError (fst g) (w1\<lparr>eventsTable := table\<rparr>), bump (mergeAction r) (snd st))
      | Inr u \<Rightarrow> (w1\<lparr>eventsTable := table\<rparr>, bump (mergeAction r) (snd st)))"
  using assms by (simp add: processCall_def split: sum.splits)

lemma processCall_merged_events:
  assumes "mergeCallEvents f (fst st) (fst g) (snd g) = Inr (w1, r)"
    and "markMultipleAsProcessed f (eventsTable w1) (map recId (sortedEvents r)) (callRecordId r)
           = (table, res)"
  shows "eventsTable (fst (processCall f g st)) = table"
    and "errorLog (fst (processCall f g st)) =
           (case res of Inl err \<Rightarrow> errorLog w1 @ [fst g] | Inr u \<Rightarrow> errorLog w1)"
    and "snd (processCall f g st) = bump (mergeAction r) (snd st)"
  unfolding processCall_merged[OF assms]
  by (cases res; simp add: logError_def)+

lemma processCall_rows:
  assumes "S \<inter> recId ` set (snd g) = {}"
  shows "filter (\<lambda>e. recId e \<in> S) (eventsTable (fst (processCall f g st)))
     = filter (\<lambda>e. recId e \<in> S) (eventsTable (fst st))"
proof (cases "mergeCallEvents f (fst st) (fst g) (snd g)")
  case (Inl err)
  then show ?thesis by (simp add: processCall_def logError_def)
next
  case (Inr res)
  obtain w1 r where res: "res = (w1, r)" by (cases res)
  note m = Inr[unfolded res]
  let ?ids = "map recId (sortedEvents r)"
  obtain table out where
    mark: "markMultipleAsProcessed f (eventsTable w1) ?ids (callRecordId r) = (table, out)"
    by (cases "markMultipleAsProcessed f (eventsTable w1) ?ids (callRecordId r)")
  have "set ?ids = recId ` set (snd g)"
    by (simp add: merge_keeps_events(3)[OF m] set_sortBy)
  with assms have "S \<inter> set ?ids = {}" by simp
  then have "filter (\<lambda>e. recId e \<in> S)
       (fst (markMultipleAsProcessed f (eventsTable w1) ?ids (callRecordId r)))
     = filter (\<lambda>e. recId e \<in> S) (eventsTable w1)"
    unfolding markMultipleAsProcessed_def by (rule markBatches_rows)
  moreover have "fst (markMultipleAsProcessed f (eventsTable w1) ?ids (callRecordId r)) = table"
    by (simp only: mark fst_conv)
  ultimately
  have "filter (\<lambda>e. recId e \<in> S) table = filter (\<lambda>e. recId e \<in> S) (eventsTable (fst st))"
    by (simp only: merge_keeps_events(1)[OF m])
  then show ?thesis by (simp only: processCall_merged_events(1)[OF m mark])
qed

lemma processCalls_rows:
  "\<forall>g \<in> set groups. S \<inter> recId ` set (snd g) = {} \<Longrightarrow>
   filter (\<lambda>e. recId e \<in> S) (eventsTable (fst (processCalls f groups st)))
     = filter (\<lambda>e. recId e \<in> S) (eventsTable (fst st))"
proof (induction groups arbitrary: st)
  case Nil
  then show ?case by (simp add: processCalls_def)
next
  case (Cons g groups)
  have "processCalls f (g # groups) st = processCalls f groups (processCall f g st)"
    by (simp add: processCalls_def)
  then show ?case using Cons.IH[of "processCall f g st"] Cons.prems
    by (simp add: processCall_rows)
qed

lemma processCalls_append:
  "processCalls f (xs @ ys) st = processCalls f ys (processCalls f xs st)"
  by (simp add: processCalls_def)

lemma processCalls_Cons:
  "processCalls f (g # groups) st = processCalls f groups (processCall f g st)"
  by (simp add: processCalls_def)

lemma processCall_failed:
  "mergeCallEvents f (fst st) c es = Inl err \<Longrightarrow>
   processCall f (c, es) st = (logError c (fst st), snd st)"
  by (simp add: processCall_def)

lemma tally_bump: "fst (bump a cu) + snd (bump a cu) = Suc (fst cu + snd cu)"
  by (cases a) (simp_all add: bump_def)

lemma processCall_counts:
  "tally st \<le> tally (processCall f g st) \<and> tally (processCall f g st) \<le> Suc (tally st)
   \<and> logged st \<le> logged (processCall f g st)
   \<and> Suc (tally st + logged st) \<le> tally (processCall f g st) + logged (processCall f g st)"
proof (cases "mergeCallEvents f (fst st) (fst g) (snd g)")
  case (Inl err)
  then show ?thesis by (simp add: processCall_def logError_def tally_def logged_def)
next
  case (Inr res)
  obtain w1 r where res: "res = (w1, r)" by (cases res)
  note m = Inr[unfolded res]
  obtain table out where
    mark: "markMultipleAsProcessed f (eventsTable w1) (map recId (sortedEvents r)) (callRecordId r)
             = (table, out)"
    by (cases "markMultipleAsProcessed f (eventsTable w1) (map recId (sortedEvents r))
                 (callRecordId r)")
  have t: "tally (processCall f g st) = Suc (tally st)"
    by (simp add: tally_def processCall_merged_events(3)[OF m mark] tally_bump)
  have "logged st \<le> logged (processCall f g st)"
    by (cases out)
       (simp_all add: logged_def processCall_merged_events(2)[OF m mark]
          merge_keeps_events(2)[OF m])
  with t show ?thesis by simp
qed

lemma processCalls_counts:
  "tally st \<le> tally (processCalls f groups st)
   \<and> tally (processCalls f groups st) \<le> tally st + length groups
   \<and> logged st \<le> logged (processCalls f groups st)
   \<and> tally st + logged st + length groups
       \<le> tally (processCalls f groups st) + logged (processCalls f groups st)"
proof (induction groups arbitrary: st)
  case Nil
  then show ?case by (simp add: processCalls_def)
next
  case (Cons g groups)
  from Cons.IH[of "processCall f g st"] processCall_counts[of st f g]
  show ?case by (simp add: processCalls_Cons)
qed

lemma merge_lookup_fails:
  "es \<noteq> [] \<Longrightarrow> f (SelectCalls c) \<Longrightarrow> mergeCallEvents f w c es = Inl RequestFailed"
proof -
  assume "es \<noteq> []" and fails: "f (SelectCalls c)"
  then have "sortBy sortKey es \<noteq> []" by (simp add: sortBy_Nil_iff)
  then obtain cd where "extractCallData (sortBy sortKey es) = Inr cd"
    using extract_returns by blast
  with fails show ?thesis
    by (simp add: mergeCallEvents_def Let_def findByTelebroadCallId_def findByTelebroadId_def)
qed

lemma markBatches_ok:
  "\<forall>ids. \<not> f (UpdateEvents ids) \<Longrightarrow> snd (markBatches n f table ids cr) = Inr ()"
  by (induction n arbitrary: table ids) auto

lemma mark_fails_first:
  "ids \<noteq> [] \<Longrightarrow> f (UpdateEvents (take 10 ids)) \<Longrightarrow>
   markMultipleAsProcessed f table ids cr = (table, Inl RequestFailed)"
  by (cases ids) (simp_all add: markMultipleAsProcessed_def)

lemma processCall_created:
  assumes "es \<noteq> []" and "filter (matchesCallId c) (callsTable (fst st)) = []"
    and "\<not> f (SelectCalls c)" and "\<not> f CreateCall"
  shows "snd (processCall f (c, es) st) = (Suc (fst (snd st)), snd (snd st))"
    and "\<forall>ids. \<not> f (UpdateEvents ids) \<Longrightarrow>
           errorLog (fst (processCall f (c, es) st)) = errorLog (fst st)"
    and "f (UpdateEvents (take 10 (map recId (sortBy sortKey es)))) \<Longrightarrow>
           errorLog (fst (processCall f (c, es) st)) = errorLog (fst st) @ [c]
           \<and> eventsTable (fst (processCall f (c, es) st)) = eventsTable (fst st)"
proof -
  have nf: "findByTelebroadCallId f (fst st) c = Inr None"
    using find_no_match[of f c "fst st"] assms(2,3) by blast
  from merge_not_found[OF assms(1) nf assms(4)]
  obtain w1 r where m: "mergeCallEvents f (fst st) (fst (c, es)) (snd (c, es)) = Inr (w1, r)"
    and r: "mergeAction r = Created"
    by auto
  obtain table out where
    mark: "markMultipleAsProcessed f (eventsTable w1) (map recId (sortedEvents r)) (callRecordId r)
             = (table, out)"
    by (cases "markMultipleAsProcessed f (eventsTable w1) (map recId (sortedEvents r))
                 (callRecordId r)")
  show "snd (processCall f (c, es) st) = (Suc (fst (snd st)), snd (snd st))"
    by (simp add: processCall_merged_events(3)[OF m mark] r bump_def)
  show "errorLog (fst (processCall f (c, es) st)) = errorLog (fst st)"
    if ok: "\<forall>ids. \<not> f (UpdateEvents ids)"
  proof -
    from markBatches_ok[of f] ok mark have "out = Inr ()"
      by (metis markMultipleAsProcessed_def snd_conv)
    then show ?thesis
      by (simp add: processCall_merged_events(2)[OF m mark] merge_keeps_events(2)[OF m])
  qed
  show "errorLog (fst (processCall f (c, es) st)) = errorLog (fst st) @ [c]
           \<and> eventsTable (fst (processCall f (c, es) st)) = eventsTable (fst st)"
    if fails: "f (UpdateEvents (take 10 (map recId (sortBy sortKey es))))"
  proof -
    have ids: "map recId (sortedEvents r) = map recId (sortBy sortKey es)"
      using merge_keeps_events(3)[OF m] by simp
    have "map recId (sortBy sortKey es) \<noteq> []"
      using assms(1) by (simp add: sortBy_Nil_iff)
    from mark_fails_first[of "map recId (sortBy sortKey es)" f "eventsTable w1" "callRecordId r"]
      this fails mark ids
    have "table = eventsTable w1" "out = Inl RequestFailed" by simp_all
    then show ?thesis
      by (simp add: processCall_merged_events(1,2)[OF m mark] merge_keeps_events(1,2)[OF m])
  qed
qed

text \<open>
  C7, amended. When the merge of one group throws (its lookup, create or update is
  refused), the loop reports the call id and continues with the remaining groups from
  the state it had, so every other group is processed as if the failed one were absent,
  and, the groups holding different events, the failed group's events are in the end
  what they were at the start of the pass: unconsumed. The pass returns a summary of
  three counts: \<open>processed\<close>, the number of groups including the failed ones, \<open>created\<close>
  and \<open>updated\<close>. There is no count of failed groups; the number of reported failures
  is at least \<open>processed - created - updated\<close>.
\<close>

theorem failed_group_is_skipped_and_uncounted:
  "(mergeCallEvents f (fst (processCalls f before st)) c es = Inl err
     \<and> (\<forall>g \<in> set (before @ after). recId ` set es \<inter> recId ` set (snd g) = {}) \<longrightarrow>
       processCalls f (before @ (c, es) # after) st
         = processCalls f after
             (logError c (fst (processCalls f before st)), snd (processCalls f before st))
       \<and> filter (\<lambda>e. recId e \<in> recId ` set es)
           (eventsTable (fst (processCalls f (before @ (c, es) # after) st)))
         = filter (\<lambda>e. recId e \<in> recId ` set es) (eventsTable (fst st)))
   \<and> (getEventsGroupedByCallId f (eventsTable w) = Inr grouped \<longrightarrow>
       (\<exists>w' s. processUnprocessedEvents f w = (w', Inr s)
          \<and> processed s = length (objectKeys grouped)
          \<and> created s + updated s \<le> processed s
          \<and> processed s + length (errorLog w)
              \<le> created s + updated s + length (errorLog w')))"
proof (rule conjI; rule impI)
  assume "mergeCallEvents f (fst (processCalls f before st)) c es = Inl err
     \<and> (\<forall>g \<in> set (before @ after). recId ` set es \<inter> recId ` set (snd g) = {})"
  then have fails: "mergeCallEvents f (fst (processCalls f before st)) c es = Inl err"
    and apart: "\<forall>g \<in> set before. recId ` set es \<inter> recId ` set (snd g) = {}"
      "\<forall>g \<in> set after. recId ` set es \<inter> recId ` set (snd g) = {}"
    by auto
  let ?st1 = "processCalls f before st"
  let ?st2 = "(logError c (fst ?st1), snd ?st1)"
  have skip: "processCalls f (before @ (c, es) # after) st = processCalls f after ?st2"
    by (simp add: processCalls_append processCalls_Cons processCall_failed[OF fails])
  have "filter (\<lambda>e. recId e \<in> recId ` set es) (eventsTable (fst (processCalls f after ?st2)))
      = filter (\<lambda>e. recId e \<in> recId ` set es) (eventsTable (fst ?st2))"
    using apart(2) by (rule processCalls_rows)
  also have "eventsTable (fst ?st2) = eventsTable (fst ?st1)"
    by (simp add: logError_def)
  also have "filter (\<lambda>e. recId e \<in> recId ` set es) (eventsTable (fst ?st1))
      = filter (\<lambda>e. recId e \<in> recId ` set es) (eventsTable (fst st))"
    using apart(1) by (rule processCalls_rows)
  finally show "processCalls f (before @ (c, es) # after) st = processCalls f after ?st2
       \<and> filter (\<lambda>e. recId e \<in> recId ` set es)
           (eventsTable (fst (processCalls f (before @ (c, es) # after) st)))
         = filter (\<lambda>e. recId e \<in> recId ` set es) (eventsTable (fst st))"
    using skip by simp
next
  assume g: "getEventsGroupedByCallId f (eventsTable w) = Inr grouped"
  let ?groups = "map (\<lambda>c. (c, getProp grouped c)) (objectKeys grouped)"
  let ?st = "processCalls f ?groups (w, 0, 0)"
  show "\<exists>w' s. processUnprocessedEvents f w = (w', Inr s)
          \<and> processed s = length (objectKeys grouped)
          \<and> created s + updated s \<le> processed s
          \<and> processed s + length (errorLog w)
              \<le> created s + updated s + length (errorLog w')"
  proof (cases "length (objectKeys grouped) = 0")
    case True
    with g show ?thesis by (simp add: processUnprocessedEvents_def)
  next
    case False
    with g have "processUnprocessedEvents f w =
        (fst ?st, Inr \<lparr>processed = length (objectKeys grouped), created = fst (snd ?st),
                        updated = snd (snd ?st)\<rparr>)"
      by (simp add: processUnprocessedEvents_def Let_def)
    moreover from processCalls_counts[of "(w, 0, 0)" f ?groups]
    have "fst (snd ?st) + snd (snd ?st) \<le> length (objectKeys grouped)
        \<and> length (objectKeys grouped) + length (errorLog w)
            \<le> fst (snd ?st) + snd (snd ?st) + length (errorLog (fst ?st))"
      by (simp add: tally_def logged_def)
    ultimately show ?thesis by simp
  qed
qed

lemma leg_received:
  "\<bar>secs\<bar> \<le> 1000000 \<Longrightarrow>
   receivedMillis (leg i st sendT destT destN secs) = Some (callStart + 1000 * secs)"
  by (simp add: receivedMillis_def leg_sel leg_time)

lemma otherRinging_fields:
  "recId otherRinging = ''recF1''" "CallID otherRinging = Some otherCallId"
  "Processed otherRinging = False"
  "receivedMillis otherRinging = Some (callStart - 443000)"
  by (simp_all add: otherRinging_def receivedMillis_def leg_sel js_defs newDate_def callStart_def)

lemma guide_fields:
  "recId guideRinging = ''recE1''" "recId guideEnded = ''recE7''"
  "recId guideHunt = ''recE4''" "recId guideAnswered = ''recE6''"
  "Processed guideRinging = False" "Processed guideEnded = False"
  "Processed guideHunt = False" "Processed guideAnswered = False"
  "receivedMillis guideRinging = Some callStart" "receivedMillis guideEnded = Some callStart"
  "receivedMillis guideHunt = Some (callStart + 30000)"
  "receivedMillis guideAnswered = Some (callStart + 38000)"
  by (simp_all add: leg_defs leg_sel leg_received)

lemma ids_differ: "guideCallId \<noteq> otherCallId" "otherCallId \<noteq> guideCallId"
  by (simp_all add: guideCallId_def otherCallId_def)

lemma not_inherited:
  "guideCallId \<notin> set inheritedKeys" "otherCallId \<notin> set inheritedKeys"
  by (simp_all add: guideCallId_def otherCallId_def inheritedKeys_def)

lemma not_array_index: "\<not> isArrayIndex guideCallId" "\<not> isArrayIndex otherCallId"
  by (simp_all add: isArrayIndex_def isDigit_def guideCallId_def otherCallId_def)

lemma guideWorld_grouped:
  "\<not> f SelectUnprocessed \<Longrightarrow>
   getEventsGroupedByCallId f (eventsTable guideWorld) = Inr [(guideCallId, guideCall)]"
  by (simp add: getEventsGroupedByCallId_def getUnprocessedEvents_def guideWorld_def
        emptyWorld_def guideCall_def guide_fields guide_call_ids sortBy_def comesAfter_iff
        toStr_def not_inherited)

lemma twoCallsWorld_grouped:
  "\<not> f SelectUnprocessed \<Longrightarrow>
   getEventsGroupedByCallId f (eventsTable twoCallsWorld)
     = Inr [(otherCallId, [otherRinging]), (guideCallId, guideCall)]"
  by (simp add: getEventsGroupedByCallId_def getUnprocessedEvents_def twoCallsWorld_def
        emptyWorld_def guideCall_def guide_fields guide_call_ids otherRinging_fields sortBy_def
        comesAfter_iff toStr_def not_inherited ids_differ)

lemma guide_keys:
  "objectKeys [(guideCallId, guideCall)] = [guideCallId]"
  "objectKeys [(otherCallId, [otherRinging]), (guideCallId, guideCall)] = [otherCallId, guideCallId]"
  "getProp [(guideCallId, guideCall)] guideCallId = guideCall"
  "getProp [(otherCallId, [otherRinging]), (guideCallId, guideCall)] otherCallId = [otherRinging]"
  "getProp [(otherCallId, [otherRinging]), (guideCallId, guideCall)] guideCallId = guideCall"
  by (simp_all add: objectKeys_def getProp_def not_array_index ids_differ)

lemma single_group_pass:
  assumes "\<not> f SelectUnprocessed" "\<not> f (SelectCalls guideCallId)" "\<not> f CreateCall"
  shows "processUnprocessedEvents f guideWorld =
     (fst (processCall f (guideCallId, guideCall) (guideWorld, 0, 0)),
      Inr \<lparr>processed = 1, created = 1, updated = 0\<rparr>)"
proof -
  have "filter (matchesCallId guideCallId) (callsTable (fst (guideWorld, 0::nat, 0::nat))) = []"
    by (simp add: guideWorld_def emptyWorld_def)
  from processCall_created(1)[OF guideCall_ne this assms(2,3)]
  have "snd (processCall f (guideCallId, guideCall) (guideWorld, 0, 0)) = (1, 0)"
    by simp
  moreover have "getEventsGroupedByCallId f (eventsTable guideWorld) = Inr [(guideCallId, guideCall)]"
    using guideWorld_grouped[of f] assms(1) by blast
  ultimately show ?thesis
    by (simp add: processUnprocessedEvents_def guide_keys processCalls_def)
qed

text \<open>
  C7, as the claim states it: the summary would report the number of groups that
  failed. A pass in which nothing fails and a pass in which the group fails (the store
  refuses to mark its events) return the same summary.
\<close>

theorem summary_has_no_failed_count_counterexample:
  "snd (processUnprocessedEvents noFaults guideWorld)
     = Inr \<lparr>processed = 1, created = 1, updated = 0\<rparr>
   \<and> errorLog (fst (processUnprocessedEvents noFaults guideWorld)) = []
   \<and> snd (processUnprocessedEvents markingFails guideWorld)
       = Inr \<lparr>processed = 1, created = 1, updated = 0\<rparr>
   \<and> errorLog (fst (processUnprocessedEvents markingFails guideWorld)) = [guideCallId]"
proof -
  have table: "filter (matchesCallId guideCallId) (callsTable (fst (guideWorld, 0::nat, 0::nat))) = []"
    by (simp add: guideWorld_def emptyWorld_def)
  have a: "processUnprocessedEvents noFaults guideWorld =
     (fst (processCall noFaults (guideCallId, guideCall) (guideWorld, 0, 0)),
      Inr \<lparr>processed = 1, created = 1, updated = 0\<rparr>)"
    by (rule single_group_pass) (simp_all add: noFaults_def)
  have b: "processUnprocessedEvents markingFails guideWorld =
     (fst (processCall markingFails (guideCallId, guideCall) (guideWorld, 0, 0)),
      Inr \<lparr>processed = 1, created = 1, updated = 0\<rparr>)"
    by (rule single_group_pass) (simp_all add: markingFails_def)
  have "errorLog (fst (processCall noFaults (guideCallId, guideCall) (guideWorld, 0, 0)))
      = errorLog (fst (guideWorld, 0::nat, 0::nat))"
    by (rule processCall_created(2)[OF guideCall_ne table]) (simp_all add: noFaults_def)
  then have c: "errorLog (fst (processCall noFaults (guideCallId, guideCall) (guideWorld, 0, 0))) = []"
    by (simp add: guideWorld_def emptyWorld_def)
  have "errorLog (fst (processCall markingFails (guideCallId, guideCall) (guideWorld, 0, 0)))
      = errorLog (fst (guideWorld, 0::nat, 0::nat)) @ [guideCallId]"
    using processCall_created(3)[OF guideCall_ne table, of markingFails]
    by (simp add: markingFails_def)
  then have d: "errorLog (fst (processCall markingFails (guideCallId, guideCall) (guideWorld, 0, 0)))
      = [guideCallId]"
    by (simp add: guideWorld_def emptyWorld_def)
  show ?thesis by (simp add: a b c d)
qed

theorem failed_group_is_skipped_and_uncounted_witness:
  "mergeCallEvents lookupFails twoCallsWorld otherCallId [otherRinging] = Inl RequestFailed
   \<and> recId ` set [otherRinging] \<inter> recId ` set guideCall = {}
   \<and> getEventsGroupedByCallId lookupFails (eventsTable twoCallsWorld)
       = Inr [(otherCallId, [otherRinging]), (guideCallId, guideCall)]
   \<and> filter (\<lambda>e. recId e \<in> recId ` set [otherRinging])
        (eventsTable (fst (processUnprocessedEvents lookupFails twoCallsWorld)))
       = [otherRinging]
   \<and> \<not> Processed otherRinging
   \<and> snd (processUnprocessedEvents lookupFails twoCallsWorld)
       = Inr \<lparr>processed = 2, created = 1, updated = 0\<rparr>
   \<and> errorLog (fst (processUnprocessedEvents lookupFails twoCallsWorld)) = [otherCallId]"
proof -
  let ?groups = "[(otherCallId, [otherRinging]), (guideCallId, guideCall)]"
  let ?st = "(twoCallsWorld, 0::nat, 0::nat)"
  let ?st2 = "(logError otherCallId twoCallsWorld, 0::nat, 0::nat)"
  have fails: "mergeCallEvents lookupFails twoCallsWorld otherCallId [otherRinging]
      = Inl RequestFailed"
    by (rule merge_lookup_fails) (simp_all add: lookupFails_def)
  have apart: "recId ` set [otherRinging] \<inter> recId ` set guideCall = {}"
    by (simp add: guideCall_def guide_fields otherRinging_fields)
  have grouped: "getEventsGroupedByCallId lookupFails (eventsTable twoCallsWorld) = Inr ?groups"
    by (rule twoCallsWorld_grouped) (simp add: lookupFails_def)
  note inst = failed_group_is_skipped_and_uncounted
    [where f = lookupFails and before = "[]" and st = ?st and c = otherCallId
       and es = "[otherRinging]" and err = RequestFailed and after = "[(guideCallId, guideCall)]"
       and w = twoCallsWorld and grouped = ?groups]
  have nil: "processCalls lookupFails [] ?st = ?st"
    by (simp add: processCalls_def)
  have h1: "mergeCallEvents lookupFails (fst (processCalls lookupFails [] ?st)) otherCallId
      [otherRinging] = Inl RequestFailed"
    using fails by (simp only: nil fst_conv)
  have h2: "\<forall>g \<in> set ([] @ [(guideCallId, guideCall)]).
      recId ` set [otherRinging] \<inter> recId ` set (snd g) = {}"
    using apart by simp
  from inst h1 h2
  have both: "processCalls lookupFails ([] @ (otherCallId, [otherRinging]) # [(guideCallId, guideCall)]) ?st
      = processCalls lookupFails [(guideCallId, guideCall)]
          (logError otherCallId (fst (processCalls lookupFails [] ?st)),
           snd (processCalls lookupFails [] ?st))
    \<and> filter (\<lambda>e. recId e \<in> recId ` set [otherRinging])
        (eventsTable (fst (processCalls lookupFails
           ([] @ (otherCallId, [otherRinging]) # [(guideCallId, guideCall)]) ?st)))
      = filter (\<lambda>e. recId e \<in> recId ` set [otherRinging]) (eventsTable (fst ?st))"
    by blast
  note b1 = both[THEN conjunct1] and b2 = both[THEN conjunct2]
  from b1 have skip: "processCalls lookupFails ?groups ?st
      = processCalls lookupFails [(guideCallId, guideCall)] ?st2"
    by (simp only: nil fst_conv snd_conv append_Nil)
  from b2 have rows: "filter (\<lambda>e. recId e \<in> recId ` set [otherRinging])
        (eventsTable (fst (processCalls lookupFails ?groups ?st)))
      = filter (\<lambda>e. recId e \<in> recId ` set [otherRinging]) (eventsTable twoCallsWorld)"
    by (simp only: fst_conv append_Nil)
  have pass: "processUnprocessedEvents lookupFails twoCallsWorld =
      (fst (processCalls lookupFails ?groups ?st),
       Inr \<lparr>processed = 2, created = fst (snd (processCalls lookupFails ?groups ?st)),
            updated = snd (snd (processCalls lookupFails ?groups ?st))\<rparr>)"
    by (simp add: processUnprocessedEvents_def grouped guide_keys Let_def)
  have table: "filter (matchesCallId guideCallId) (callsTable (fst ?st2)) = []"
    by (simp add: logError_def twoCallsWorld_def emptyWorld_def)
  have ok: "\<not> lookupFails (SelectCalls guideCallId)" "\<not> lookupFails CreateCall"
    "\<forall>ids. \<not> lookupFails (UpdateEvents ids)"
    by (simp_all add: lookupFails_def ids_differ)
  have final: "processCalls lookupFails ?groups ?st
      = processCall lookupFails (guideCallId, guideCall) ?st2"
    unfolding skip by (simp add: processCalls_def)
  have counts: "snd (processCalls lookupFails ?groups ?st) = (1, 0)"
    unfolding final using processCall_created(1)[OF guideCall_ne table ok(1,2)] by simp
  have log: "errorLog (fst (processCalls lookupFails ?groups ?st)) = [otherCallId]"
    unfolding final using processCall_created(2)[OF guideCall_ne table ok(1,2) ok(3)]
    by (simp add: logError_def twoCallsWorld_def emptyWorld_def)
  have kept: "filter (\<lambda>e. recId e \<in> recId ` set [otherRinging])
        (eventsTable (fst (processCalls lookupFails ?groups ?st))) = [otherRinging]"
    unfolding rows
    by (simp add: twoCallsWorld_def emptyWorld_def guideCall_def guide_fields otherRinging_fields)
  have p1: "fst (processUnprocessedEvents lookupFails twoCallsWorld)
      = fst (processCalls lookupFails ?groups ?st)"
    by (simp only: pass fst_conv)
  have p2: "snd (processUnprocessedEvents lookupFails twoCallsWorld)
      = Inr \<lparr>processed = 2, created = 1, updated = 0\<rparr>"
    by (simp add: pass counts)
  have unprocessed: "\<not> Processed otherRinging"
    by (simp add: otherRinging_fields)
  show ?thesis
    unfolding p1 by (intro conjI fails apart grouped kept unprocessed p2 log)
qed

section \<open>A pass over an event without call id\<close>




end
